theory Spec2Isabelle
  imports Main "HOL-Library.Word"
begin

section \<open>Data model\<close>

text \<open>
  Objects of the editor (\<open>NodeItem\<close>, \<open>GroupItem\<close>, \<open>PortLabel\<close>, \<open>ConnectionItem\<close>)
  are heap objects that the registry refers to by pointer.  A pointer is an address
  (a natural number); the heaps are total functions from addresses to object states,
  and every pointer handed to an operation is assumed to be valid and non-null.
\<close>

type_synonym ptr = nat

datatype Orientation = Input | Parameter | Output

text \<open>
  \<open>PortLabel\<close> (view/PortLabel.hpp): the fields the registry and the factory read.
  \<open>tagBitMask\<close> is the bitmask inherited from \<open>Taggable\<close>; \<open>portVisible\<close> and
  \<open>portParent\<close> are \<open>QGraphicsItem::isVisible()\<close> and \<open>parentItem()\<close>.
\<close>

record PortLabel =
  m_portName :: string
  m_moduleName :: string
  m_orientation :: Orientation
  tagBitMask :: "64 word"
  portVisible :: bool
  portParent :: ptr

definition isAnyInputPort :: "PortLabel \<Rightarrow> bool" where
  "isAnyInputPort p = (m_orientation p = Input \<or> m_orientation p = Parameter)"

definition isParameterPort :: "PortLabel \<Rightarrow> bool" where
  "isParameterPort p = (m_orientation p = Parameter)"

definition isInputPort :: "PortLabel \<Rightarrow> bool" where
  "isInputPort p = (m_orientation p = Input)"

definition isOutputPort :: "PortLabel \<Rightarrow> bool" where
  "isOutputPort p = (m_orientation p = Output)"

text \<open>
  \<open>NodeItem\<close> (view/NodeItem.cpp).  \<open>isGroupItem\<close> is the dynamic type of the object:
  it is what \<open>dynamic_cast<GroupItem*>\<close> tests.  \<open>m_parameterPorts\<close> keeps the keys of
  the map from parameter ports to their widgets; \<open>m_members\<close> is \<open>GroupItem::m_nodes\<close>.
\<close>

record NodeItem =
  m_nodeName :: string
  isGroupItem :: bool
  m_isActive :: bool
  nodeVisible :: bool
  m_inputs :: "ptr list"
  m_outputs :: "ptr list"
  m_parameterPorts :: "ptr list"
  m_members :: "ptr list"

text \<open>
  \<open>ConnectionPort\<close> and \<open>ConnectionItem\<close> (view/ConnectionItem.cpp), without the scene
  geometry (\<open>scenePos\<close>, \<open>rect\<close>, the painter path).
\<close>

record ConnectionPort =
  portName :: string
  moduleName :: string
  isInput :: bool

record ConnectionItem =
  m_inputPort :: ConnectionPort
  m_outputPort :: ConnectionPort
  c_isActive :: bool

subsection \<open>\<open>QMap\<close>\<close>

text \<open>
  A \<open>QMap\<close> is an association list kept in ascending key order, which is the order in
  which the source iterates over it.
\<close>

type_synonym ('k, 'v) qmap = "('k \<times> 'v) list"

fun qmap_insert :: "'k::linorder \<Rightarrow> 'v \<Rightarrow> ('k, 'v) qmap \<Rightarrow> ('k, 'v) qmap" where
  "qmap_insert k v [] = [(k, v)]"
| "qmap_insert k v ((k', v') # m) =
     (if k < k' then (k, v) # (k', v') # m
      else if k = k' then (k, v) # m
      else (k', v') # qmap_insert k v m)"

definition qmap_remove :: "'k \<Rightarrow> ('k, 'v) qmap \<Rightarrow> ('k, 'v) qmap" where
  "qmap_remove k m = filter (\<lambda>e. fst e \<noteq> k) m"

definition qmap_contains :: "('k, 'v) qmap \<Rightarrow> 'k \<Rightarrow> bool" where
  "qmap_contains m k = (map_of m k \<noteq> None)"

text \<open>\<open>m[k]\<close> and \<open>m.value(k)\<close> of a map of vectors: the empty vector when \<open>k\<close> is absent.\<close>

definition qmap_at :: "('k, 'v list) qmap \<Rightarrow> 'k \<Rightarrow> 'v list" where
  "qmap_at m k = (case map_of m k of None \<Rightarrow> [] | Some v \<Rightarrow> v)"

definition qmap_values :: "('k, 'v) qmap \<Rightarrow> 'v list" where
  "qmap_values m = map snd m"

subsection \<open>Descriptors and the registry\<close>

text \<open>utility/NodeDescriptor.hpp\<close>

record NodeDescriptor =
  uid :: int
  node :: ptr
  inputsDescriptor :: "(ptr, ptr list) qmap"
  outputsDescriptor :: "(ptr, ptr list) qmap"
  parametersInputsDescriptor :: "(ptr, ptr list) qmap"

text \<open>
  utility/GroupDescriptor.hpp.  \<open>memberNodes\<close> holds pointers to node descriptors in
  the source; every use reads only their \<open>node\<close> field, which is what the list keeps here.
\<close>

record GroupDescriptor =
  g_uid :: int
  group :: ptr
  memberNodes :: "ptr list"
  forwardInputsDescriptor :: "(ptr, ptr list) qmap"
  forwardOutputsDescriptor :: "(ptr, ptr list) qmap"
  forwardParametersInputsDescriptor :: "(ptr, ptr list) qmap"

text \<open>
  The state: the members of \<open>GraphRegistry\<close> (utility/GraphRegistry.hpp) and the three
  heaps.  \<open>qint64\<close> counters are integers; they start at 1 and only grow by one per
  registration, so the signed overflow at \<open>2^63\<close> is out of reach and not modelled.
  \<open>nextConn\<close> and \<open>nextPort\<close> are the allocators of \<open>new ConnectionItem\<close> and
  \<open>new PortLabel\<close>.
\<close>

record world =
  m_nodes :: "(ptr, NodeDescriptor) qmap"
  m_groups :: "(ptr, GroupDescriptor) qmap"
  m_nextNodeId :: int
  m_nextGroupId :: int
  ports :: "ptr \<Rightarrow> PortLabel"
  items :: "ptr \<Rightarrow> NodeItem"
  conns :: "ptr \<Rightarrow> ConnectionItem"
  nextConn :: ptr
  nextPort :: ptr

section \<open>GraphRegistry\<close>

definition lookupNodeUnlocked :: "world \<Rightarrow> ptr \<Rightarrow> NodeDescriptor option" where
  "lookupNodeUnlocked s n = map_of (m_nodes s) n"

definition lookupGroupUnlocked :: "world \<Rightarrow> ptr \<Rightarrow> GroupDescriptor option" where
  "lookupGroupUnlocked s g = map_of (m_groups s) g"

definition registerNode :: "ptr \<Rightarrow> world \<Rightarrow> int \<times> world" where
  "registerNode n s =
     (if isGroupItem (items s n) then (- 1, s)
      else case lookupNodeUnlocked s n of
        Some d \<Rightarrow> (uid d, s)
      | None \<Rightarrow>
          (let d = \<lparr>uid = m_nextNodeId s, node = n, inputsDescriptor = [],
                    outputsDescriptor = [], parametersInputsDescriptor = []\<rparr>
           in (uid d, s\<lparr>m_nodes := qmap_insert n d (m_nodes s),
                        m_nextNodeId := m_nextNodeId s + 1\<rparr>)))"

definition unregisterNode :: "ptr \<Rightarrow> world \<Rightarrow> world" where
  "unregisterNode n s =
     (if isGroupItem (items s n) then s
      else s\<lparr>m_nodes := qmap_remove n (m_nodes s)\<rparr>)"

text \<open>
  \<open>registerInput\<close>, \<open>registerOutput\<close>, \<open>registerParameter\<close>: the port is written with an
  empty connection vector when its orientation matches and the node has a descriptor.
\<close>

definition registerInput :: "ptr \<Rightarrow> ptr \<Rightarrow> world \<Rightarrow> world" where
  "registerInput n p s =
     (if isInputPort (ports s p) then
        (case lookupNodeUnlocked s n of
           Some d \<Rightarrow> s\<lparr>m_nodes := qmap_insert n
                        (d\<lparr>inputsDescriptor := qmap_insert p [] (inputsDescriptor d)\<rparr>) (m_nodes s)\<rparr>
         | None \<Rightarrow> s)
      else s)"

definition registerOutput :: "ptr \<Rightarrow> ptr \<Rightarrow> world \<Rightarrow> world" where
  "registerOutput n p s =
     (if isOutputPort (ports s p) then
        (case lookupNodeUnlocked s n of
           Some d \<Rightarrow> s\<lparr>m_nodes := qmap_insert n
                        (d\<lparr>outputsDescriptor := qmap_insert p [] (outputsDescriptor d)\<rparr>) (m_nodes s)\<rparr>
         | None \<Rightarrow> s)
      else s)"

definition registerParameter :: "ptr \<Rightarrow> ptr \<Rightarrow> world \<Rightarrow> world" where
  "registerParameter n p s =
     (if isParameterPort (ports s p) then
        (case lookupNodeUnlocked s n of
           Some d \<Rightarrow> s\<lparr>m_nodes := qmap_insert n
                        (d\<lparr>parametersInputsDescriptor :=
                             qmap_insert p [] (parametersInputsDescriptor d)\<rparr>) (m_nodes s)\<rparr>
         | None \<Rightarrow> s)
      else s)"

definition unregisterInput :: "ptr \<Rightarrow> ptr \<Rightarrow> world \<Rightarrow> world" where
  "unregisterInput n p s =
     (if isInputPort (ports s p) then
        (case lookupNodeUnlocked s n of
           Some d \<Rightarrow> s\<lparr>m_nodes := qmap_insert n
                        (d\<lparr>inputsDescriptor := qmap_remove p (inputsDescriptor d)\<rparr>) (m_nodes s)\<rparr>
         | None \<Rightarrow> s)
      else s)"

definition unregisterOutput :: "ptr \<Rightarrow> ptr \<Rightarrow> world \<Rightarrow> world" where
  "unregisterOutput n p s =
     (if isOutputPort (ports s p) then
        (case lookupNodeUnlocked s n of
           Some d \<Rightarrow> s\<lparr>m_nodes := qmap_insert n
                        (d\<lparr>outputsDescriptor := qmap_remove p (outputsDescriptor d)\<rparr>) (m_nodes s)\<rparr>
         | None \<Rightarrow> s)
      else s)"

definition unregisterParameter :: "ptr \<Rightarrow> ptr \<Rightarrow> world \<Rightarrow> world" where
  "unregisterParameter n p s =
     (case lookupNodeUnlocked s n of
        Some d \<Rightarrow> s\<lparr>m_nodes := qmap_insert n
                     (d\<lparr>parametersInputsDescriptor :=
                          qmap_remove p (parametersInputsDescriptor d)\<rparr>) (m_nodes s)\<rparr>
      | None \<Rightarrow> s)"

text \<open>\<open>findNode\<close>, \<open>findGroup\<close>: the first descriptor, in key order, whose item has the name.\<close>

definition findNode :: "world \<Rightarrow> string \<Rightarrow> NodeDescriptor option" where
  "findNode s name = find (\<lambda>nd. m_nodeName (items s (node nd)) = name) (qmap_values (m_nodes s))"

definition findGroup :: "world \<Rightarrow> string \<Rightarrow> GroupDescriptor option" where
  "findGroup s name = find (\<lambda>gd. m_nodeName (items s (group gd)) = name) (qmap_values (m_groups s))"

text \<open>
  The owner lookup that \<open>registerConnection\<close> performs for each of its two ports:
  \<open>findNode\<close> first, \<open>findGroup\<close> otherwise; \<open>None\<close> is the null pointer.
\<close>

definition ownerByName :: "world \<Rightarrow> string \<Rightarrow> ptr option" where
  "ownerByName s name =
     (case findNode s name of
        Some desc \<Rightarrow> Some (node desc)
      | None \<Rightarrow> (case findGroup s name of Some gDesc \<Rightarrow> Some (group gDesc) | None \<Rightarrow> None))"

definition pushOutput :: "ptr \<Rightarrow> ptr \<Rightarrow> ptr \<Rightarrow> world \<Rightarrow> world" where
  "pushOutput outNode outPort c s =
     (case lookupNodeUnlocked s outNode of
        Some d \<Rightarrow> s\<lparr>m_nodes := qmap_insert outNode
                     (d\<lparr>outputsDescriptor := qmap_insert outPort
                          (qmap_at (outputsDescriptor d) outPort @ [c]) (outputsDescriptor d)\<rparr>)
                     (m_nodes s)\<rparr>
      | None \<Rightarrow> s)"

definition pushInput :: "ptr \<Rightarrow> ptr \<Rightarrow> ptr \<Rightarrow> world \<Rightarrow> world" where
  "pushInput inNode inPort c s =
     (case lookupNodeUnlocked s inNode of
        Some d \<Rightarrow> s\<lparr>m_nodes := qmap_insert inNode
                     (d\<lparr>inputsDescriptor := qmap_insert inPort
                          (qmap_at (inputsDescriptor d) inPort @ [c]) (inputsDescriptor d)\<rparr>)
                     (m_nodes s)\<rparr>
      | None \<Rightarrow> s)"

text \<open>
  \<open>registerConnection\<close>.  \<open>inPort\<close> is \<open>from\<close> when \<open>from\<close> is an input or a parameter and
  \<open>to\<close> otherwise; \<open>outPort\<close> stays null unless the other port (respectively \<open>from\<close>) is an
  output.  \<open>pushOutput\<close> and \<open>pushInput\<close> are the two final \<open>push_back\<close> blocks.
\<close>

definition registerConnection :: "ptr \<Rightarrow> ptr \<Rightarrow> ptr \<Rightarrow> world \<Rightarrow> world" where
  "registerConnection from to c s =
     (let inPort = (if isAnyInputPort (ports s from) then from else to);
          outPort = (if isAnyInputPort (ports s from)
                     then (if isOutputPort (ports s to) then Some to else None)
                     else (if isOutputPort (ports s from) then Some from else None))
      in case outPort of
           None \<Rightarrow> s
         | Some outPort \<Rightarrow>
             (case (ownerByName s (m_moduleName (ports s inPort)),
                    ownerByName s (m_moduleName (ports s outPort))) of
                (Some inNode, Some outNode) \<Rightarrow>
                  pushInput inNode inPort c (pushOutput outNode outPort c s)
              | _ \<Rightarrow> s))"

definition removeConn :: "ptr \<Rightarrow> (ptr, ptr list) qmap \<Rightarrow> (ptr, ptr list) qmap" where
  "removeConn c mp = map (\<lambda>(p, vec). (p, removeAll c vec)) mp"

definition unregisterConnection :: "ptr \<Rightarrow> world \<Rightarrow> world" where
  "unregisterConnection c s =
     s\<lparr>m_nodes := map (\<lambda>(n, nd). (n, nd\<lparr>inputsDescriptor := removeConn c (inputsDescriptor nd),
                                          outputsDescriptor := removeConn c (outputsDescriptor nd),
                                          parametersInputsDescriptor :=
                                            removeConn c (parametersInputsDescriptor nd)\<rparr>))
                     (m_nodes s)\<rparr>"

subsection \<open>Groups and forwarding\<close>

definition registerGroup :: "ptr \<Rightarrow> world \<Rightarrow> int \<times> world" where
  "registerGroup g s =
     (case lookupGroupUnlocked s g of
        Some d \<Rightarrow> (g_uid d, s)
      | None \<Rightarrow>
          (let d = \<lparr>g_uid = m_nextGroupId s, group = g, memberNodes = [],
                    forwardInputsDescriptor = [], forwardOutputsDescriptor = [],
                    forwardParametersInputsDescriptor = []\<rparr>
           in (g_uid d, s\<lparr>m_groups := qmap_insert g d (m_groups s),
                          m_nextGroupId := m_nextGroupId s + 1,
                          m_nodes := qmap_remove g (m_nodes s)\<rparr>)))"

definition unregisterGroup :: "ptr \<Rightarrow> world \<Rightarrow> world" where
  "unregisterGroup g s = s\<lparr>m_groups := qmap_remove g (m_groups s)\<rparr>"

definition addNodeToGroup :: "ptr \<Rightarrow> ptr \<Rightarrow> world \<Rightarrow> world" where
  "addNodeToGroup g n s =
     (case (lookupGroupUnlocked s g, lookupNodeUnlocked s n) of
        (Some gd, Some nd) \<Rightarrow>
          s\<lparr>m_groups := qmap_insert g (gd\<lparr>memberNodes := memberNodes gd @ [node nd]\<rparr>) (m_groups s)\<rparr>
      | _ \<Rightarrow> s)"

definition removeNodeFromGroup :: "ptr \<Rightarrow> ptr \<Rightarrow> world \<Rightarrow> world" where
  "removeNodeFromGroup g n s =
     (case lookupGroupUnlocked s g of
        None \<Rightarrow> s
      | Some gd \<Rightarrow>
          s\<lparr>m_groups := qmap_insert g (gd\<lparr>memberNodes := filter (\<lambda>m. m \<noteq> n) (memberNodes gd)\<rparr>)
                           (m_groups s)\<rparr>)"

text \<open>
  Modelled from the spec: \<open>Taggable::copyTagsFrom\<close> (taggable/Taggable.hpp is not among
  the sources).  The spec: the concrete port's TagSet is copied onto the forward port,
  "copying, not unioning"; the forward port "carries only the tags of the last one
  registered".
\<close>

definition copyTagsFrom :: "ptr \<Rightarrow> ptr \<Rightarrow> world \<Rightarrow> world" where
  "copyTagsFrom dst src s =
     s\<lparr>ports := (ports s)(dst := (ports s dst)\<lparr>tagBitMask := tagBitMask (ports s src)\<rparr>)\<rparr>"

definition registerForwardInput :: "ptr \<Rightarrow> ptr \<Rightarrow> ptr \<Rightarrow> world \<Rightarrow> world" where
  "registerForwardInput g forward actual s =
     (case lookupGroupUnlocked s g of
        Some gd \<Rightarrow>
          copyTagsFrom forward actual
            (s\<lparr>m_groups := qmap_insert g
                 (gd\<lparr>forwardInputsDescriptor := qmap_insert forward
                      (qmap_at (forwardInputsDescriptor gd) forward @ [actual])
                      (forwardInputsDescriptor gd)\<rparr>) (m_groups s)\<rparr>)
      | None \<Rightarrow> s)"

definition registerForwardOutput :: "ptr \<Rightarrow> ptr \<Rightarrow> ptr \<Rightarrow> world \<Rightarrow> world" where
  "registerForwardOutput g forward actual s =
     (case lookupGroupUnlocked s g of
        Some gd \<Rightarrow>
          copyTagsFrom forward actual
            (s\<lparr>m_groups := qmap_insert g
                 (gd\<lparr>forwardOutputsDescriptor := qmap_insert forward
                      (qmap_at (forwardOutputsDescriptor gd) forward @ [actual])
                      (forwardOutputsDescriptor gd)\<rparr>) (m_groups s)\<rparr>)
      | None \<Rightarrow> s)"

definition registerForwardParameter :: "ptr \<Rightarrow> ptr \<Rightarrow> ptr \<Rightarrow> world \<Rightarrow> world" where
  "registerForwardParameter g forward actual s =
     (case lookupGroupUnlocked s g of
        Some gd \<Rightarrow>
          copyTagsFrom forward actual
            (s\<lparr>m_groups := qmap_insert g
                 (gd\<lparr>forwardParametersInputsDescriptor := qmap_insert forward
                      (qmap_at (forwardParametersInputsDescriptor gd) forward @ [actual])
                      (forwardParametersInputsDescriptor gd)\<rparr>) (m_groups s)\<rparr>)
      | None \<Rightarrow> s)"

definition unregisterForwardPort :: "ptr \<Rightarrow> ptr \<Rightarrow> world \<Rightarrow> world" where
  "unregisterForwardPort g forward s =
     (case lookupGroupUnlocked s g of
        Some gd \<Rightarrow>
          s\<lparr>m_groups := qmap_insert g
               (gd\<lparr>forwardInputsDescriptor := qmap_remove forward (forwardInputsDescriptor gd),
                   forwardOutputsDescriptor := qmap_remove forward (forwardOutputsDescriptor gd),
                   forwardParametersInputsDescriptor :=
                     qmap_remove forward (forwardParametersInputsDescriptor gd)\<rparr>) (m_groups s)\<rparr>
      | None \<Rightarrow> s)"

definition allNodes :: "world \<Rightarrow> NodeDescriptor list" where
  "allNodes s = qmap_values (m_nodes s)"


text \<open>
  The lambdas \<open>appendIfExists\<close> (in \<open>getAllForwardedPortsFromAPort\<close>) and \<open>checkMap\<close> (in
  \<open>getConnectionsFromGroupPort\<close>) read the same vector \<open>mp[forwardPort]\<close> of a forwarding
  table; \<open>forwardTargets\<close> lists what they visit in one group descriptor, in the order
  inputs, outputs, parameters.
\<close>

definition appendIfExists :: "(ptr, ptr list) qmap \<Rightarrow> ptr \<Rightarrow> ptr list" where
  "appendIfExists mp forwardPort = (if qmap_contains mp forwardPort then qmap_at mp forwardPort else [])"

definition forwardTargets :: "GroupDescriptor \<Rightarrow> ptr \<Rightarrow> ptr list" where
  "forwardTargets gd forwardPort =
     appendIfExists (forwardInputsDescriptor gd) forwardPort
     @ appendIfExists (forwardOutputsDescriptor gd) forwardPort
     @ appendIfExists (forwardParametersInputsDescriptor gd) forwardPort"

definition getAllForwardedPortsFromAPort :: "world \<Rightarrow> ptr \<Rightarrow> ptr list" where
  "getAllForwardedPortsFromAPort s forwardPort =
     concat (map (\<lambda>gd. forwardTargets gd forwardPort) (qmap_values (m_groups s)))"

text \<open>
  \<open>getConnections\<close> and \<open>getConnectionsFromGroupPort\<close> call each other, through the
  forwarding tables, as deep as the tables lead; a cyclic table makes the source recurse
  for ever.  The first argument bounds the depth of the calls, and \<open>None\<close> means that the
  bound was reached.  \<open>getConnectionsOfPorts\<close> is the loop over the actual ports.
\<close>

fun getConnections :: "nat \<Rightarrow> world \<Rightarrow> ptr \<Rightarrow> ptr list option"
  and getConnectionsFromGroupPort :: "nat \<Rightarrow> world \<Rightarrow> ptr \<Rightarrow> ptr list option"
  and getConnectionsOfPorts :: "nat \<Rightarrow> world \<Rightarrow> ptr list \<Rightarrow> ptr list option" where
  "getConnections 0 s port = None"
| "getConnections (Suc k) s port =
     (case findNode s (m_moduleName (ports s port)) of
        None \<Rightarrow> getConnectionsFromGroupPort k s port
      | Some owner \<Rightarrow>
          (case lookupNodeUnlocked s (node owner) of
             None \<Rightarrow> Some []
           | Some nd \<Rightarrow> Some (appendIfExists (inputsDescriptor nd) port
                             @ appendIfExists (outputsDescriptor nd) port
                             @ appendIfExists (parametersInputsDescriptor nd) port)))"
| "getConnectionsFromGroupPort k s forwardPort =
     getConnectionsOfPorts k s (getAllForwardedPortsFromAPort s forwardPort)"
| "getConnectionsOfPorts k s [] = Some []"
| "getConnectionsOfPorts k s (actual # actualPorts) =
     (case getConnections k s actual of
        None \<Rightarrow> None
      | Some cs \<Rightarrow>
          (case getConnectionsOfPorts k s actualPorts of
             None \<Rightarrow> None
           | Some result \<Rightarrow> Some (cs @ result)))"

fun hasConnection :: "nat \<Rightarrow> world \<Rightarrow> ptr \<Rightarrow> bool option"
  and hasConnectionAny :: "nat \<Rightarrow> world \<Rightarrow> ptr list \<Rightarrow> bool option" where
  "hasConnection 0 s port = None"
| "hasConnection (Suc k) s port =
     (case hasConnectionAny k s (getAllForwardedPortsFromAPort s port) of
        None \<Rightarrow> None
      | Some True \<Rightarrow> Some True
      | Some False \<Rightarrow>
          (case getConnections k s port of
             None \<Rightarrow> None
           | Some cs \<Rightarrow> Some (cs \<noteq> [])))"
| "hasConnectionAny k s [] = Some False"
| "hasConnectionAny k s (p # forwardsPorts) =
     (case hasConnection k s p of
        None \<Rightarrow> None
      | Some True \<Rightarrow> Some True
      | Some False \<Rightarrow> hasConnectionAny k s forwardsPorts)"

definition findConnection :: "nat \<Rightarrow> world \<Rightarrow> ptr \<Rightarrow> string \<Rightarrow> string \<Rightarrow> ptr option option" where
  "findConnection k s fromPort pName mName =
     (case getConnections k s fromPort of
        None \<Rightarrow> None
      | Some cs \<Rightarrow>
          Some (find (\<lambda>conn.
                  if isAnyInputPort (ports s fromPort)
                  then portName (m_outputPort (conns s conn)) = pName
                       \<and> moduleName (m_outputPort (conns s conn)) = mName
                  else portName (m_inputPort (conns s conn)) = pName
                       \<and> moduleName (m_inputPort (conns s conn)) = mName) cs))"

text \<open>\<open>hasConnectionTo(PortLabel&, PortLabel&)\<close>, which calls the overload by name.\<close>

definition hasConnectionTo :: "nat \<Rightarrow> world \<Rightarrow> ptr \<Rightarrow> ptr \<Rightarrow> bool option" where
  "hasConnectionTo k s fromPort toPort =
     (let inP = (if isAnyInputPort (ports s fromPort) then Some fromPort
                 else if isAnyInputPort (ports s toPort) then Some toPort else None);
          outP = (if isOutputPort (ports s fromPort) then Some fromPort
                  else if isOutputPort (ports s toPort) then Some toPort else None)
      in case (inP, outP) of
           (Some i, Some out) \<Rightarrow>
             (case findConnection k s i (m_portName (ports s out)) (m_moduleName (ports s out)) of
                None \<Rightarrow> None
              | Some r \<Rightarrow> Some (r \<noteq> None))
         | _ \<Rightarrow> Some False)"

text \<open>\<open>ConnectionItem::setIsActive\<close> and \<open>NodeItem::setActive\<close>.\<close>

definition setIsActive :: "bool \<Rightarrow> world \<Rightarrow> ptr \<Rightarrow> world" where
  "setIsActive b s conn = s\<lparr>conns := (conns s)(conn := (conns s conn)\<lparr>c_isActive := b\<rparr>)\<rparr>"

definition setActive :: "ptr \<Rightarrow> bool \<Rightarrow> world \<Rightarrow> world" where
  "setActive n b s = s\<lparr>items := (items s)(n := (items s n)\<lparr>m_isActive := b\<rparr>)\<rparr>"

text \<open>
  The loop of \<open>activateNode\<close> and \<open>deactivateNode\<close> over \<open>node->outputs()\<close>; the inner
  loop sets the flag of every connection that \<open>getConnections\<close> returns for the port.
\<close>

fun cascadeActive :: "nat \<Rightarrow> bool \<Rightarrow> ptr list \<Rightarrow> world \<Rightarrow> world option" where
  "cascadeActive k b [] s = Some s"
| "cascadeActive k b (port # outs) s =
     (case getConnections k s port of
        None \<Rightarrow> None
      | Some cs \<Rightarrow> cascadeActive k b outs (foldl (setIsActive b) s cs))"

definition activateNode :: "nat \<Rightarrow> ptr \<Rightarrow> world \<Rightarrow> world option" where
  "activateNode k n s = cascadeActive k True (m_outputs (items s n)) (setActive n True s)"

definition deactivateNode :: "nat \<Rightarrow> ptr \<Rightarrow> world \<Rightarrow> world option" where
  "deactivateNode k n s = cascadeActive k False (m_outputs (items s n)) (setActive n False s)"

definition isNodeActive :: "world \<Rightarrow> ptr \<Rightarrow> bool" where
  "isNodeActive s n = m_isActive (items s n)"

section \<open>NodeFactory\<close>

text \<open>
  Modelled from the spec: \<open>haveSameTags\<close> (taggable/Taggable.hpp is not among the
  sources).  The spec: "Accept iff the two TagSets are exactly equal (haveSameTags)";
  a TagSet is a fixed-width bitmask over tag indices, of capacity 64.
\<close>

definition haveSameTags :: "PortLabel \<Rightarrow> PortLabel \<Rightarrow> bool" where
  "haveSameTags a b = (tagBitMask a = tagBitMask b)"

text \<open>
  \<open>NodeFactory::PortsAreCompatible\<close>.  \<open>getTagBitMask().count() == 0\<close> is written as the
  mask being zero.  The result is \<open>None\<close> when \<open>hasConnection\<close> reaches the depth bound.
\<close>

definition PortsAreCompatible :: "nat \<Rightarrow> world \<Rightarrow> ptr \<Rightarrow> ptr \<Rightarrow> bool option" where
  "PortsAreCompatible k s port1 port2 =
     (let a = ports s port1; b = ports s port2 in
      if \<not> portVisible a \<or> \<not> portVisible b then Some False
      else if portParent a = portParent b then Some False
      else if (isAnyInputPort a \<and> isAnyInputPort b) \<or> (isOutputPort a \<and> isOutputPort b)
      then Some False
      else if tagBitMask a = 0 \<or> tagBitMask b = 0 then Some False
      else
        (case (if m_orientation a = Parameter \<or> m_orientation a = Input
               then hasConnection k s port1 else Some False) of
           None \<Rightarrow> None
         | Some True \<Rightarrow> Some False
         | Some False \<Rightarrow>
             (case (if m_orientation b = Parameter \<or> m_orientation b = Input
                    then hasConnection k s port2 else Some False) of
                None \<Rightarrow> None
              | Some True \<Rightarrow> Some False
              | Some False \<Rightarrow> Some (haveSameTags a b))))"

datatype error = DepthExceeded | NullDereference

definition getConnectionPortData :: "PortLabel \<Rightarrow> ConnectionPort" where
  "getConnectionPortData p =
     \<lparr>portName = m_portName p, moduleName = m_moduleName p, isInput = isAnyInputPort p\<rparr>"

text \<open>
  \<open>ConnectionItem(port1, port2)\<close>: \<open>addPort\<close> is called on each, and stores an input port
  in \<open>m_inputPort\<close> and any other in \<open>m_outputPort\<close>; both start default-constructed and
  \<open>m_isActive\<close> starts false.
\<close>

definition addPort :: "ConnectionPort \<Rightarrow> ConnectionItem \<Rightarrow> ConnectionItem" where
  "addPort port c = (if isInput port then c\<lparr>m_inputPort := port\<rparr> else c\<lparr>m_outputPort := port\<rparr>)"

definition newConnectionItem :: "ConnectionPort \<Rightarrow> ConnectionPort \<Rightarrow> ConnectionItem" where
  "newConnectionItem port1 port2 =
     addPort port2 (addPort port1
       \<lparr>m_inputPort = \<lparr>portName = [], moduleName = [], isInput = False\<rparr>,
        m_outputPort = \<lparr>portName = [], moduleName = [], isInput = False\<rparr>,
        c_isActive = False\<rparr>)"

text \<open>
  The resolution of a forward port in \<open>createConnectionBetweenPorts\<close>: the first forwarded
  port \<open>p\<close> with \<open>p->moduleName() + "_" + p->name()\<close> equal to the name of the port, or the
  port itself.
\<close>

definition concretePort :: "world \<Rightarrow> ptr \<Rightarrow> ptr" where
  "concretePort s port =
     (case find (\<lambda>p. m_moduleName (ports s p) @ ''_'' @ m_portName (ports s p)
                      = m_portName (ports s port))
                (getAllForwardedPortsFromAPort s port) of
        Some p \<Rightarrow> p
      | None \<Rightarrow> port)"

text \<open>
  \<open>NodeFactory::createConnectionBetweenPorts\<close>.  After the registration the source
  refreshes, for each of the two ports, the owner found by \<open>findGroup\<close> or else by
  \<open>findNode\<close>, whose result it dereferences unchecked; the refresh itself writes widget
  flags and scene geometry only, which the state does not carry.  The result is the new
  connection (\<open>None\<close> for \<open>nullptr\<close>) and the state.
\<close>

definition ownerRefreshable :: "world \<Rightarrow> string \<Rightarrow> bool" where
  "ownerRefreshable s name = (findGroup s name \<noteq> None \<or> findNode s name \<noteq> None)"

definition createConnectionBetweenPorts ::
    "nat \<Rightarrow> ptr \<Rightarrow> ptr \<Rightarrow> world \<Rightarrow> error + (ptr option \<times> world)" where
  "createConnectionBetweenPorts k fromPort toPort s =
     (case PortsAreCompatible k s fromPort toPort of
        None \<Rightarrow> Inl DepthExceeded
      | Some False \<Rightarrow> Inr (None, s)
      | Some True \<Rightarrow>
          (case hasConnectionTo k s fromPort toPort of
             None \<Rightarrow> Inl DepthExceeded
           | Some True \<Rightarrow> Inr (None, s)
           | Some False \<Rightarrow>
               (let concreteFrom = concretePort s fromPort;
                    concreteTo = concretePort s toPort;
                    connection = nextConn s;
                    s1 = s\<lparr>conns := (conns s)(connection :=
                              newConnectionItem (getConnectionPortData (ports s concreteFrom))
                                                (getConnectionPortData (ports s concreteTo))),
                           nextConn := Suc connection\<rparr>;
                    s2 = registerConnection concreteFrom concreteTo connection s1
                in if ownerRefreshable s2 (m_moduleName (ports s2 fromPort))
                      \<and> ownerRefreshable s2 (m_moduleName (ports s2 toPort))
                   then Inr (Some connection, s2)
                   else Inl NullDereference)))"

section \<open>NodeItem and GroupItem: the calls into the registry\<close>

text \<open>
  The constructor of \<open>NodeItem\<close> registers \<open>this\<close>; while it runs the dynamic type of the
  object is \<open>NodeItem\<close>, also when the object is the base of a \<open>GroupItem\<close>.
\<close>

definition NodeItem_ctor :: "ptr \<Rightarrow> string \<Rightarrow> world \<Rightarrow> world" where
  "NodeItem_ctor n name s =
     snd (registerNode n
       (s\<lparr>items := (items s)(n := \<lparr>m_nodeName = name, isGroupItem = False, m_isActive = False,
                                     nodeVisible = True, m_inputs = [], m_outputs = [],
                                     m_parameterPorts = [], m_members = []\<rparr>)\<rparr>))"

text \<open>
  \<open>NodeItem::setNodeName\<close> stores the new name in the node and does nothing else: the
  ports of the node keep the module name they were constructed with, and the registry is
  not told.
\<close>

definition setNodeName :: "ptr \<Rightarrow> string \<Rightarrow> world \<Rightarrow> world" where
  "setNodeName n t s = s\<lparr>items := (items s)(n := (items s n)\<lparr>m_nodeName := t\<rparr>)\<rparr>"

definition newPortLabel :: "string \<Rightarrow> ptr \<Rightarrow> Orientation \<Rightarrow> world \<Rightarrow> PortLabel" where
  "newPortLabel name n orientation s =
     \<lparr>m_portName = name, m_moduleName = m_nodeName (items s n), m_orientation = orientation,
      tagBitMask = 0, portVisible = nodeVisible (items s n), portParent = n\<rparr>"

definition addInput :: "ptr \<Rightarrow> string \<Rightarrow> world \<Rightarrow> ptr \<times> world" where
  "addInput n name s =
     (let input = nextPort s;
          s1 = s\<lparr>ports := (ports s)(input := newPortLabel name n Input s),
                 nextPort := Suc input,
                 items := (items s)(n := (items s n)\<lparr>m_inputs := m_inputs (items s n) @ [input]\<rparr>)\<rparr>
      in (input, registerInput n input s1))"

definition addOutput :: "ptr \<Rightarrow> string \<Rightarrow> world \<Rightarrow> ptr \<times> world" where
  "addOutput n name s =
     (let output = nextPort s;
          s1 = s\<lparr>ports := (ports s)(output := newPortLabel name n Output s),
                 nextPort := Suc output,
                 items := (items s)(n := (items s n)\<lparr>m_outputs := m_outputs (items s n) @ [output]\<rparr>)\<rparr>
      in (output, registerOutput n output s1))"

text \<open>
  \<open>changeNodeVisibility\<close> shows or hides the node and its input and output ports; a
  parameter port has no visibility of its own and follows the node, its parent item.
\<close>

definition setPortsVisible :: "bool \<Rightarrow> ptr list \<Rightarrow> (ptr \<Rightarrow> PortLabel) \<Rightarrow> (ptr \<Rightarrow> PortLabel)" where
  "setPortsVisible val ps h = (\<lambda>p. if p \<in> set ps then (h p)\<lparr>portVisible := val\<rparr> else h p)"

definition changeNodeVisibility :: "bool \<Rightarrow> ptr \<Rightarrow> world \<Rightarrow> world" where
  "changeNodeVisibility val n s =
     s\<lparr>items := (items s)(n := (items s n)\<lparr>nodeVisible := val\<rparr>),
       ports := setPortsVisible val
                  (m_inputs (items s n) @ m_outputs (items s n) @ m_parameterPorts (items s n))
                  (ports s)\<rparr>"

text \<open>\<open>GroupItem::mirrorPorts\<close>: one forward port per input and per output of each member.\<close>

fun mirrorInputs :: "ptr \<Rightarrow> ptr list \<Rightarrow> world \<Rightarrow> world" where
  "mirrorInputs g [] s = s"
| "mirrorInputs g (p # ps) s =
     (case addInput g (m_moduleName (ports s p) @ ''_'' @ m_portName (ports s p)) s of
        (gp, s1) \<Rightarrow> mirrorInputs g ps (registerForwardInput g gp p s1))"

fun mirrorOutputs :: "ptr \<Rightarrow> ptr list \<Rightarrow> world \<Rightarrow> world" where
  "mirrorOutputs g [] s = s"
| "mirrorOutputs g (p # ps) s =
     (case addOutput g (m_moduleName (ports s p) @ ''_'' @ m_portName (ports s p)) s of
        (gp, s1) \<Rightarrow> mirrorOutputs g ps (registerForwardOutput g gp p s1))"

fun mirrorPorts :: "ptr \<Rightarrow> ptr list \<Rightarrow> world \<Rightarrow> world" where
  "mirrorPorts g [] s = s"
| "mirrorPorts g (n # ns) s =
     mirrorPorts g ns (mirrorOutputs g (m_outputs (items s n))
                        (mirrorInputs g (m_inputs (items s n)) s))"

text \<open>
  The constructor of \<open>GroupItem\<close> over member nodes that have no parameter ports (for
  which \<open>mirrorParams\<close> does nothing).  \<open>title\<close> is the result of \<open>buildTitle()\<close>, which is
  computed from display names.  The members are kept in the order given.
\<close>

definition GroupItem_ctor :: "ptr \<Rightarrow> ptr list \<Rightarrow> string \<Rightarrow> world \<Rightarrow> world" where
  "GroupItem_ctor g nodes title s =
     (let s1 = NodeItem_ctor g ''Group'' s;
          s2 = s1\<lparr>items := (items s1)(g := (items s1 g)\<lparr>isGroupItem := True\<rparr>)\<rparr>;
          s3 = snd (registerGroup g s2);
          s4 = fold (changeNodeVisibility False) (remdups nodes)
                 (s3\<lparr>items := (items s3)(g := (items s3 g)\<lparr>m_members := remdups nodes\<rparr>)\<rparr>);
          s5 = s4\<lparr>items := (items s4)(g := (items s4 g)\<lparr>m_nodeName := title\<rparr>)\<rparr>
      in mirrorPorts g (m_members (items s5 g)) s5)"

definition disconnectAllPorts :: "ptr \<Rightarrow> world \<Rightarrow> world" where
  "disconnectAllPorts n s =
     s\<lparr>items := (items s)(n := (items s n)\<lparr>m_inputs := [], m_outputs := [],
                                            m_parameterPorts := []\<rparr>)\<rparr>"

text \<open>
  \<open>GroupItem::ungroup\<close>: for every member, in turn, the node is shown again and
  \<open>unregisterForwardPort(this, p)\<close> is called for each of its inputs, outputs and
  parameter ports \<open>p\<close>.  The final \<open>deleteLater()\<close> defers the destructor, which is
  \<open>GroupItem_dtor\<close>: \<open>~GroupItem\<close> unregisters the group, then \<open>~NodeItem\<close> runs on the
  object as a \<open>NodeItem\<close>.
\<close>

definition ungroupMember :: "ptr \<Rightarrow> ptr \<Rightarrow> world \<Rightarrow> world" where
  "ungroupMember g n s =
     (let s1 = changeNodeVisibility True n s
      in fold (unregisterForwardPort g)
           (m_inputs (items s1 n) @ m_outputs (items s1 n) @ m_parameterPorts (items s1 n)) s1)"

definition ungroup :: "ptr \<Rightarrow> world \<Rightarrow> world" where
  "ungroup g s =
     (let s1 = disconnectAllPorts g s;
          s2 = fold (ungroupMember g) (m_members (items s1 g)) s1
      in s2\<lparr>items := (items s2)(g := (items s2 g)\<lparr>m_members := []\<rparr>)\<rparr>)"

definition GroupItem_dtor :: "ptr \<Rightarrow> world \<Rightarrow> world" where
  "GroupItem_dtor g s =
     (let s1 = unregisterGroup g s;
          s2 = s1\<lparr>items := (items s1)(g := (items s1 g)\<lparr>m_members := [], isGroupItem := False\<rparr>)\<rparr>
      in unregisterNode g (disconnectAllPorts g s2))"

section \<open>Reachable states\<close>

text \<open>
  The registry starts empty, with both counters at 1.  A step is one call of a mutating
  operation of the registry, or a change of the objects outside it.  The operations that
  take a \<open>GroupItem*\<close> are called on objects whose dynamic type is \<open>GroupItem\<close>; and an
  object stays a \<open>GroupItem\<close> for as long as it is registered as a group, because the
  only place where it stops being one, \<open>~GroupItem\<close>, unregisters it first.
\<close>

inductive reachable :: "world \<Rightarrow> bool" where
  r_init: "m_nodes s = [] \<Longrightarrow> m_groups s = [] \<Longrightarrow> m_nextNodeId s = 1 \<Longrightarrow> m_nextGroupId s = 1
           \<Longrightarrow> reachable s"
| r_registerNode: "reachable s \<Longrightarrow> reachable (snd (registerNode n s))"
| r_unregisterNode: "reachable s \<Longrightarrow> reachable (unregisterNode n s)"
| r_registerInput: "reachable s \<Longrightarrow> reachable (registerInput n p s)"
| r_registerOutput: "reachable s \<Longrightarrow> reachable (registerOutput n p s)"
| r_registerParameter: "reachable s \<Longrightarrow> reachable (registerParameter n p s)"
| r_unregisterInput: "reachable s \<Longrightarrow> reachable (unregisterInput n p s)"
| r_unregisterOutput: "reachable s \<Longrightarrow> reachable (unregisterOutput n p s)"
| r_unregisterParameter: "reachable s \<Longrightarrow> reachable (unregisterParameter n p s)"
| r_registerConnection: "reachable s \<Longrightarrow> reachable (registerConnection from to c s)"
| r_unregisterConnection: "reachable s \<Longrightarrow> reachable (unregisterConnection c s)"
| r_registerGroup: "reachable s \<Longrightarrow> isGroupItem (items s g)
                    \<Longrightarrow> reachable (snd (registerGroup g s))"
| r_unregisterGroup: "reachable s \<Longrightarrow> reachable (unregisterGroup g s)"
| r_addNodeToGroup: "reachable s \<Longrightarrow> reachable (addNodeToGroup g n s)"
| r_removeNodeFromGroup: "reachable s \<Longrightarrow> reachable (removeNodeFromGroup g n s)"
| r_registerForwardInput: "reachable s \<Longrightarrow> reachable (registerForwardInput g f a s)"
| r_registerForwardOutput: "reachable s \<Longrightarrow> reachable (registerForwardOutput g f a s)"
| r_registerForwardParameter: "reachable s \<Longrightarrow> reachable (registerForwardParameter g f a s)"
| r_unregisterForwardPort: "reachable s \<Longrightarrow> reachable (unregisterForwardPort g f s)"
| r_objects: "reachable s \<Longrightarrow> \<forall>g \<in> fst ` set (m_groups s). isGroupItem (its g)
              \<Longrightarrow> reachable (s\<lparr>ports := ps, items := its, conns := cs,
                                nextConn := nc, nextPort := np\<rparr>)"

text \<open>
  The invariant of the two tables: keys ascending (the order of a \<open>QMap\<close>), each node
  descriptor stored under its own node, with an id below the counter and shared with no
  other descriptor; each group key a \<open>GroupItem\<close> and no group key among the node keys.
\<close>

definition registry_inv :: "world \<Rightarrow> bool" where
  "registry_inv s =
     (sorted_wrt (<) (map fst (m_nodes s))
      \<and> sorted_wrt (<) (map fst (m_groups s))
      \<and> (\<forall>(n, d) \<in> set (m_nodes s). node d = n \<and> uid d < m_nextNodeId s)
      \<and> (\<forall>(n, d) \<in> set (m_nodes s). \<forall>(n', d') \<in> set (m_nodes s). uid d = uid d' \<longrightarrow> n = n')
      \<and> (\<forall>(g, gd) \<in> set (m_groups s). group gd = g \<and> isGroupItem (items s g))
      \<and> (\<forall>g \<in> fst ` set (m_groups s). g \<notin> fst ` set (m_nodes s)))"

text \<open>
  Two states have the same graph when they agree on the two tables, on the ports and on
  the names of the items: what the queries of the registry read.
\<close>

definition same_graph :: "world \<Rightarrow> world \<Rightarrow> bool" where
  "same_graph s s' =
     (m_nodes s' = m_nodes s \<and> m_groups s' = m_groups s \<and> ports s' = ports s
      \<and> (\<forall>x. m_nodeName (items s' x) = m_nodeName (items s x)))"

section \<open>Forwarding chains\<close>

text \<open>
  \<open>ownConnections\<close> is what \<open>getConnections\<close> reads for a port whose module name is the
  name of a registered node: the vectors kept for the port in that node's descriptor.
  \<open>forwardsTo s f p\<close>: \<open>p\<close> is reached from \<open>f\<close> through the forwarding tables, in one
  step or more.  \<open>forwardDepthLe d s p\<close>: no chain of forwarding entries from \<open>p\<close> is
  longer than \<open>d\<close>.  \<open>connectedBelow s p\<close>: some port reached from \<open>p\<close> has a connection
  of its own.
\<close>

definition ownConnections :: "world \<Rightarrow> ptr \<Rightarrow> ptr list" where
  "ownConnections s port =
     (case findNode s (m_moduleName (ports s port)) of
        None \<Rightarrow> []
      | Some owner \<Rightarrow>
          (case lookupNodeUnlocked s (node owner) of
             None \<Rightarrow> []
           | Some nd \<Rightarrow> appendIfExists (inputsDescriptor nd) port
                        @ appendIfExists (outputsDescriptor nd) port
                        @ appendIfExists (parametersInputsDescriptor nd) port))"

text \<open>
  \<open>storedConnections s p\<close> are the connections registered for the port \<open>p\<close>: the vectors
  kept under the pointer \<open>p\<close> in the descriptors of the registered nodes, whichever node
  that is.  No name is looked up; the descriptors are swept as \<open>unregisterConnection\<close>
  sweeps them.
\<close>

definition storedConnections :: "world \<Rightarrow> ptr \<Rightarrow> ptr list" where
  "storedConnections s port =
     concat (map (\<lambda>nd. appendIfExists (inputsDescriptor nd) port
                       @ appendIfExists (outputsDescriptor nd) port
                       @ appendIfExists (parametersInputsDescriptor nd) port) (allNodes s))"

inductive forwardsTo :: "world \<Rightarrow> ptr \<Rightarrow> ptr \<Rightarrow> bool" for s :: world where
  fwd_step: "p \<in> set (getAllForwardedPortsFromAPort s f) \<Longrightarrow> forwardsTo s f p"
| fwd_trans: "p \<in> set (getAllForwardedPortsFromAPort s f) \<Longrightarrow> forwardsTo s p q
              \<Longrightarrow> forwardsTo s f q"

fun forwardDepthLe :: "nat \<Rightarrow> world \<Rightarrow> ptr \<Rightarrow> bool" where
  "forwardDepthLe 0 s p = (getAllForwardedPortsFromAPort s p = [])"
| "forwardDepthLe (Suc d) s p =
     (\<forall>q \<in> set (getAllForwardedPortsFromAPort s p). forwardDepthLe d s q)"

definition connectedBelow :: "world \<Rightarrow> ptr \<Rightarrow> bool" where
  "connectedBelow s p = (\<exists>q. forwardsTo s p q \<and> ownConnections s q \<noteq> [])"

section \<open>Sink and source of a pair of ports\<close>


section \<open>Example states\<close>

text \<open>
  Three nodes \<open>A\<close>, \<open>B\<close>, \<open>C\<close> at addresses 1, 2, 3, with the ports \<open>A.in\<close> (input, at
  10), \<open>B.out\<close> and \<open>C.out2\<close> (outputs, at 11 and 12), all carrying the tag of index 0.
  \<open>exNodes\<close> is the state after the three nodes and their ports were created;
  \<open>exConnected\<close> is \<open>exNodes\<close> after \<open>B.out\<close> was connected to \<open>A.in\<close>.
\<close>

definition noPort :: PortLabel where
  "noPort = \<lparr>m_portName = [], m_moduleName = [], m_orientation = Output, tagBitMask = 0,
             portVisible = False, portParent = 0\<rparr>"

definition noItem :: NodeItem where
  "noItem = \<lparr>m_nodeName = [], isGroupItem = False, m_isActive = False, nodeVisible = False,
             m_inputs = [], m_outputs = [], m_parameterPorts = [], m_members = []\<rparr>"

definition noConn :: ConnectionItem where
  "noConn = \<lparr>m_inputPort = \<lparr>portName = [], moduleName = [], isInput = False\<rparr>,
             m_outputPort = \<lparr>portName = [], moduleName = [], isInput = False\<rparr>,
             c_isActive = False\<rparr>"

definition exPorts :: "ptr \<Rightarrow> PortLabel" where
  "exPorts = (\<lambda>_. noPort)
     (10 := \<lparr>m_portName = ''in'', m_moduleName = ''A'', m_orientation = Input,
             tagBitMask = 1, portVisible = True, portParent = 1\<rparr>,
      11 := \<lparr>m_portName = ''out'', m_moduleName = ''B'', m_orientation = Output,
             tagBitMask = 1, portVisible = True, portParent = 2\<rparr>,
      12 := \<lparr>m_portName = ''out2'', m_moduleName = ''C'', m_orientation = Output,
             tagBitMask = 1, portVisible = True, portParent = 3\<rparr>)"

definition exItems :: "ptr \<Rightarrow> NodeItem" where
  "exItems = (\<lambda>_. noItem)
     (1 := \<lparr>m_nodeName = ''A'', isGroupItem = False, m_isActive = False, nodeVisible = True,
            m_inputs = [10], m_outputs = [], m_parameterPorts = [], m_members = []\<rparr>,
      2 := \<lparr>m_nodeName = ''B'', isGroupItem = False, m_isActive = False, nodeVisible = True,
            m_inputs = [], m_outputs = [11], m_parameterPorts = [], m_members = []\<rparr>,
      3 := \<lparr>m_nodeName = ''C'', isGroupItem = False, m_isActive = False, nodeVisible = True,
            m_inputs = [], m_outputs = [12], m_parameterPorts = [], m_members = []\<rparr>)"

definition exNodes :: world where
  "exNodes =
     \<lparr>m_nodes =
        [(1, \<lparr>uid = 1, node = 1, inputsDescriptor = [(10, [])],
               outputsDescriptor = [], parametersInputsDescriptor = []\<rparr>),
         (2, \<lparr>uid = 2, node = 2, inputsDescriptor = [],
               outputsDescriptor = [(11, [])], parametersInputsDescriptor = []\<rparr>),
         (3, \<lparr>uid = 3, node = 3, inputsDescriptor = [],
               outputsDescriptor = [(12, [])], parametersInputsDescriptor = []\<rparr>)],
      m_groups = [], m_nextNodeId = 4, m_nextGroupId = 1,
      ports = exPorts, items = exItems, conns = (\<lambda>_. noConn), nextConn = 100, nextPort = 13\<rparr>"

definition exConnected :: world where
  "exConnected =
     \<lparr>m_nodes =
        [(1, \<lparr>uid = 1, node = 1, inputsDescriptor = [(10, [100])],
               outputsDescriptor = [], parametersInputsDescriptor = []\<rparr>),
         (2, \<lparr>uid = 2, node = 2, inputsDescriptor = [],
               outputsDescriptor = [(11, [100])], parametersInputsDescriptor = []\<rparr>),
         (3, \<lparr>uid = 3, node = 3, inputsDescriptor = [],
               outputsDescriptor = [(12, [])], parametersInputsDescriptor = []\<rparr>)],
      m_groups = [], m_nextNodeId = 4, m_nextGroupId = 1,
      ports = exPorts, items = exItems,
      conns = (\<lambda>_. noConn)
        (100 := \<lparr>m_inputPort = \<lparr>portName = ''in'', moduleName = ''A'', isInput = True\<rparr>,
                  m_outputPort = \<lparr>portName = ''out'', moduleName = ''B'', isInput = False\<rparr>,
                  c_isActive = False\<rparr>),
      nextConn = 101, nextPort = 13\<rparr>"

text \<open>
  \<open>exFresh\<close> is the empty registry over the same objects.  \<open>exGroupCtor\<close> is the state
  inside the constructor of a \<open>GroupItem\<close> at address 5, after its \<open>NodeItem\<close> base has
  registered it as a node and before \<open>registerGroup\<close> is called.
\<close>

definition exFresh :: world where
  "exFresh = \<lparr>m_nodes = [], m_groups = [], m_nextNodeId = 1, m_nextGroupId = 1,
      ports = exPorts, items = exItems, conns = (\<lambda>_. noConn), nextConn = 100, nextPort = 13\<rparr>"

definition exGroupCtor :: world where
  "exGroupCtor =
     \<lparr>m_nodes = [(5, \<lparr>uid = 1, node = 5, inputsDescriptor = [], outputsDescriptor = [],
                      parametersInputsDescriptor = []\<rparr>)],
      m_groups = [], m_nextNodeId = 2, m_nextGroupId = 1,
      ports = exPorts,
      items = exItems(5 := \<lparr>m_nodeName = ''Group'', isGroupItem = True, m_isActive = False,
                             nodeVisible = True, m_inputs = [], m_outputs = [],
                             m_parameterPorts = [], m_members = []\<rparr>),
      conns = (\<lambda>_. noConn), nextConn = 100, nextPort = 13\<rparr>"

text \<open>
  \<open>exGroupRegistered\<close>: a registered group at address 5 whose forwarding tables are
  empty, with a forward port at 20 and a second input of \<open>B\<close> at 13 that carries the
  tag of index 1.
\<close>

definition exGroupRegistered :: world where
  "exGroupRegistered =
     \<lparr>m_nodes = [],
      m_groups = [(5, \<lparr>g_uid = 1, group = 5, memberNodes = [],
                       forwardInputsDescriptor = [], forwardOutputsDescriptor = [],
                       forwardParametersInputsDescriptor = []\<rparr>)],
      m_nextNodeId = 2, m_nextGroupId = 2,
      ports = exPorts
        (13 := \<lparr>m_portName = ''in2'', m_moduleName = ''B'', m_orientation = Input,
                tagBitMask = 2, portVisible = True, portParent = 2\<rparr>,
         20 := \<lparr>m_portName = ''fwd'', m_moduleName = ''Group'', m_orientation = Input,
                tagBitMask = 0, portVisible = True, portParent = 5\<rparr>),
      items = exItems(5 := \<lparr>m_nodeName = ''Group'', isGroupItem = True, m_isActive = False,
                             nodeVisible = True, m_inputs = [], m_outputs = [],
                             m_parameterPorts = [], m_members = []\<rparr>),
      conns = (\<lambda>_. noConn), nextConn = 100, nextPort = 21\<rparr>"

text \<open>
  \<open>exGrouped\<close>: a group is constructed at address 5 over the nodes \<open>A\<close> and \<open>B\<close> of
  \<open>exConnected\<close>; its forward ports are created at 13 (for \<open>A.in\<close>) and 14 (for \<open>B.out\<close>).
\<close>

definition exGrouped :: world where
  "exGrouped = GroupItem_ctor 5 [1, 2] ''A . B'' exConnected"

text \<open>
  States in which the name of a node is not, or not only, the module name of its ports.
  \<open>exRenamedA\<close>, \<open>exRenamedB\<close>: \<open>setNodeName\<close> was called on \<open>A\<close>, respectively \<open>B\<close>, of
  \<open>exConnected\<close>.  \<open>exGroupedRenamed\<close>: \<open>setNodeName\<close> was called on the member \<open>A\<close> of
  \<open>exGrouped\<close>.
\<close>

definition exRenamedA :: world where
  "exRenamedA = setNodeName 1 ''A2'' exConnected"

definition exRenamedB :: world where
  "exRenamedB = setNodeName 2 ''B2'' exConnected"

definition exGroupedRenamed :: world where
  "exGroupedRenamed = setNodeName 1 ''A2'' exGrouped"

text \<open>
  Two nodes of one name.  \<open>exSink\<close>: a node \<open>S\<close> is constructed at address 6 in \<open>exNodes\<close>
  and given the input \<open>in\<close> (at 13) with the tag of index 0; \<open>exSinkConnected\<close>: \<open>B.out\<close>
  is connected to \<open>S.in\<close> (connection 100); \<open>exDuplicate\<close>: a second node named \<open>S\<close> is then
  constructed, at address 4.  \<open>exSource\<close>, \<open>exSourceConnected\<close>, \<open>exDuplicateSource\<close>: the
  same with an output \<open>out\<close> of \<open>S\<close> (at 13) that is connected to \<open>A.in\<close>.
  \<open>exSinkGrouped\<close>: \<open>B\<close> and \<open>S\<close> of \<open>exSinkConnected\<close> are grouped at address 7, with the
  forward ports 14 (for \<open>B.out\<close>) and 15 (for \<open>S.in\<close>); \<open>exSinkGroupedDuplicate\<close>: the second
  node named \<open>S\<close> is constructed after that.
\<close>

definition exSink :: world where
  "exSink =
     (let s1 = NodeItem_ctor 6 ''S'' exNodes;
          s2 = snd (addInput 6 ''in'' s1)
      in s2\<lparr>ports := (ports s2)(13 := (ports s2 13)\<lparr>tagBitMask := 1\<rparr>)\<rparr>)"

definition exSinkConnected :: world where
  "exSinkConnected =
     (case createConnectionBetweenPorts 3 11 13 exSink of Inr (c, s) \<Rightarrow> s | Inl e \<Rightarrow> exSink)"

definition exDuplicate :: world where
  "exDuplicate = NodeItem_ctor 4 ''S'' exSinkConnected"

definition exSource :: world where
  "exSource =
     (let s1 = NodeItem_ctor 6 ''S'' exNodes;
          s2 = snd (addOutput 6 ''out'' s1)
      in s2\<lparr>ports := (ports s2)(13 := (ports s2 13)\<lparr>tagBitMask := 1\<rparr>)\<rparr>)"

definition exSourceConnected :: world where
  "exSourceConnected =
     (case createConnectionBetweenPorts 3 13 10 exSource of Inr (c, s) \<Rightarrow> s | Inl e \<Rightarrow> exSource)"

definition exDuplicateSource :: world where
  "exDuplicateSource = NodeItem_ctor 4 ''S'' exSourceConnected"

definition exSinkGrouped :: world where
  "exSinkGrouped = GroupItem_ctor 7 [2, 6] ''B . S'' exSinkConnected"

definition exSinkGroupedDuplicate :: world where
  "exSinkGroupedDuplicate = NodeItem_ctor 4 ''S'' exSinkGrouped"

section \<open>Properties of the map operations\<close>

lemma map_of_qmap_insert: "map_of (qmap_insert k v m) = (map_of m)(k \<mapsto> v)"
  by (induction m) (auto simp: fun_eq_iff)

lemma map_of_qmap_remove: "map_of (qmap_remove k m) = (map_of m)(k := None)"
  by (induction m) (auto simp: qmap_remove_def fun_eq_iff)

lemma keys_qmap_insert: "fst ` set (qmap_insert k v m) = insert k (fst ` set m)"
  by (simp add: dom_map_of_conv_image_fst[symmetric] map_of_qmap_insert)

lemma set_qmap_insert:
  "sorted_wrt (<) (map fst m) \<Longrightarrow> set (qmap_insert k v m) = insert (k, v) {e \<in> set m. fst e \<noteq> k}"
proof (induction m)
  case Nil
  then show ?case by simp
next
  case (Cons e m)
  obtain k' v' where e: "e = (k', v')" by (cases e)
  from Cons.prems have tl: "sorted_wrt (<) (map fst m)" and hd: "\<forall>x \<in> set m. k' < fst x"
    by (auto simp: e)
  show ?case
    using Cons.IH[OF tl] hd by (auto simp: e)
qed

lemma sorted_qmap_insert:
  "sorted_wrt (<) (map fst m) \<Longrightarrow> sorted_wrt (<) (map fst (qmap_insert k v m))"
proof (induction m)
  case Nil
  then show ?case by simp
next
  case (Cons e m)
  obtain k' v' where e: "e = (k', v')" by (cases e)
  from Cons.prems have tl: "sorted_wrt (<) (map fst m)" and hd: "\<forall>x \<in> fst ` set m. k' < x"
    by (auto simp: e)
  show ?case
    using Cons.IH[OF tl] hd Cons.prems
    by (auto simp: e keys_qmap_insert)
qed

lemma sorted_qmap_remove:
  "sorted_wrt (<) (map fst m) \<Longrightarrow> sorted_wrt (<) (map fst (qmap_remove k m))"
  by (induction m) (auto simp: qmap_remove_def)

lemma set_qmap_remove: "set (qmap_remove k m) = {e \<in> set m. fst e \<noteq> k}"
  by (auto simp: qmap_remove_def)

section \<open>The example states\<close>

text \<open>Connecting \<open>B.out\<close> to \<open>A.in\<close> in \<open>exNodes\<close> creates connection 100 and gives \<open>exConnected\<close>.\<close>

lemma exConnected_built:
  "createConnectionBetweenPorts 3 11 10 exNodes = Inr (Some 100, exConnected)"
  by (simp add: createConnectionBetweenPorts_def PortsAreCompatible_def hasConnectionTo_def
      findConnection_def exNodes_def exConnected_def exPorts_def exItems_def noConn_def Let_def
      isAnyInputPort_def isOutputPort_def haveSameTags_def numeral_3_eq_3
      getAllForwardedPortsFromAPort_def qmap_values_def findNode_def findGroup_def
      lookupNodeUnlocked_def appendIfExists_def qmap_contains_def qmap_at_def
      concretePort_def newConnectionItem_def addPort_def getConnectionPortData_def
      registerConnection_def ownerByName_def pushInput_def pushOutput_def ownerRefreshable_def)

section \<open>Port compatibility\<close>

text \<open>
  C1.  \<open>PortsAreCompatible\<close> gives the same answer for \<open>(p, q)\<close> and for \<open>(q, p)\<close>, and it
  answers true only when the tag bitmasks of the two ports are equal; so a port whose
  mask is \<open>{0}\<close> (the value 1) is never compatible with one whose mask is \<open>{0, 1}\<close> (the
  value 3).
\<close>

theorem PortsAreCompatible_symmetric_exact:
  "PortsAreCompatible k s p q = PortsAreCompatible k s q p
   \<and> (PortsAreCompatible k s p q = Some True
        \<longrightarrow> tagBitMask (ports s p) = tagBitMask (ports s q))
   \<and> (tagBitMask (ports s p) = 1 \<and> tagBitMask (ports s q) = 3
        \<longrightarrow> PortsAreCompatible k s p q \<noteq> Some True)"
proof -
  have sym: "PortsAreCompatible k s p q = PortsAreCompatible k s q p"
    by (cases "m_orientation (ports s p)"; cases "m_orientation (ports s q)")
       (auto simp: PortsAreCompatible_def Let_def isAnyInputPort_def isOutputPort_def
          haveSameTags_def split: option.splits bool.splits)
  have eq: "PortsAreCompatible k s p q = Some True
            \<Longrightarrow> tagBitMask (ports s p) = tagBitMask (ports s q)"
    by (auto simp: PortsAreCompatible_def Let_def haveSameTags_def
          split: if_splits option.splits bool.splits)
  from sym eq show ?thesis by auto
qed

theorem PortsAreCompatible_symmetric_exact_witness:
  "PortsAreCompatible 3 exNodes 11 10 = Some True
   \<and> PortsAreCompatible 3 exNodes 10 11 = Some True
   \<and> tagBitMask (ports exNodes 11) = tagBitMask (ports exNodes 10)"
proof -
  have c: "PortsAreCompatible 3 exNodes 11 10 = Some True"
    by (simp add: PortsAreCompatible_def exNodes_def exPorts_def exItems_def Let_def
      isAnyInputPort_def isOutputPort_def haveSameTags_def numeral_3_eq_3
      getAllForwardedPortsFromAPort_def qmap_values_def findNode_def
      lookupNodeUnlocked_def appendIfExists_def qmap_contains_def qmap_at_def)
  with PortsAreCompatible_symmetric_exact[of 3 exNodes 11 10] show ?thesis by simp
qed

section \<open>Port registration\<close>

text \<open>
  C8.  A port whose orientation does not match the registration call leaves the state
  as it was: \<open>registerInput\<close> on a port that is not an input, \<open>registerOutput\<close> on a port
  that is not an output, \<open>registerParameter\<close> on a port that is not a parameter.
\<close>

theorem wrong_orientation_registration_is_noop:
  "(m_orientation (ports s p) \<noteq> Input \<longrightarrow> registerInput n p s = s)
   \<and> (m_orientation (ports s p) \<noteq> Output \<longrightarrow> registerOutput n p s = s)
   \<and> (m_orientation (ports s p) \<noteq> Parameter \<longrightarrow> registerParameter n p s = s)"
  by (simp add: registerInput_def registerOutput_def registerParameter_def
      isInputPort_def isOutputPort_def isParameterPort_def)

theorem wrong_orientation_registration_is_noop_witness:
  "registerInput 2 11 exNodes = exNodes \<and> registerOutput 1 10 exNodes = exNodes
   \<and> registerParameter 1 10 exNodes = exNodes"
proof -
  have "m_orientation (ports exNodes 11) \<noteq> Input" "m_orientation (ports exNodes 10) \<noteq> Output"
       "m_orientation (ports exNodes 10) \<noteq> Parameter"
    by (simp_all add: exNodes_def exPorts_def)
  with wrong_orientation_registration_is_noop[of exNodes 11 2]
       wrong_orientation_registration_is_noop[of exNodes 10 1]
  show ?thesis by simp
qed

section \<open>The invariant of the registry\<close>

lemma registry_invI:
  assumes "sorted_wrt (<) (map fst (m_nodes s))"
      and "sorted_wrt (<) (map fst (m_groups s))"
      and "\<And>n d. (n, d) \<in> set (m_nodes s) \<Longrightarrow> node d = n \<and> uid d < m_nextNodeId s"
      and "\<And>n d n' d'. (n, d) \<in> set (m_nodes s) \<Longrightarrow> (n', d') \<in> set (m_nodes s)
             \<Longrightarrow> uid d = uid d' \<Longrightarrow> n = n'"
      and "\<And>g gd. (g, gd) \<in> set (m_groups s) \<Longrightarrow> group gd = g \<and> isGroupItem (items s g)"
      and "\<And>g gd d. (g, gd) \<in> set (m_groups s) \<Longrightarrow> (g, d) \<in> set (m_nodes s) \<Longrightarrow> False"
  shows "registry_inv s"
  unfolding registry_inv_def
proof (intro conjI)
  show "\<forall>g\<in>fst ` set (m_groups s). g \<notin> fst ` set (m_nodes s)"
  proof (intro ballI notI)
    fix g assume "g \<in> fst ` set (m_groups s)" "g \<in> fst ` set (m_nodes s)"
    then obtain gd d where "(g, gd) \<in> set (m_groups s)" "(g, d) \<in> set (m_nodes s)"
      by fastforce
    then show False by (rule assms(6))
  qed
  show "\<forall>(n, d)\<in>set (m_nodes s). \<forall>(n', d')\<in>set (m_nodes s). uid d = uid d' \<longrightarrow> n = n'"
    using assms(4) by (intro ballI; clarify) 
qed (use assms(1,2,3,5) in \<open>blast+\<close>)

lemma inv_sorted_nodes: "registry_inv s \<Longrightarrow> sorted_wrt (<) (map fst (m_nodes s))"
  by (simp add: registry_inv_def)

lemma inv_sorted_groups: "registry_inv s \<Longrightarrow> sorted_wrt (<) (map fst (m_groups s))"
  by (simp add: registry_inv_def)

lemma inv_nodeD:
  assumes "registry_inv s" "(n, d) \<in> set (m_nodes s)"
  shows "node d = n \<and> uid d < m_nextNodeId s"
proof -
  from assms(1) have "\<forall>(n, d) \<in> set (m_nodes s). node d = n \<and> uid d < m_nextNodeId s"
    by (simp add: registry_inv_def)
  from bspec[OF this assms(2)] show ?thesis by simp
qed

lemma inv_uidD:
  assumes "registry_inv s" "(n, d) \<in> set (m_nodes s)" "(n', d') \<in> set (m_nodes s)"
          "uid d = uid d'"
  shows "n = n'"
proof -
  from assms(1) have "\<forall>(n, d) \<in> set (m_nodes s). \<forall>(n', d') \<in> set (m_nodes s).
                         uid d = uid d' \<longrightarrow> n = n'"
    by (simp add: registry_inv_def)
  from bspec[OF this assms(2)] have "\<forall>(n', d') \<in> set (m_nodes s). uid d = uid d' \<longrightarrow> n = n'"
    by simp
  from bspec[OF this assms(3)] assms(4) show ?thesis by simp
qed

lemma inv_groupD:
  assumes "registry_inv s" "(g, gd) \<in> set (m_groups s)"
  shows "group gd = g \<and> isGroupItem (items s g)"
proof -
  from assms(1) have "\<forall>(g, gd) \<in> set (m_groups s). group gd = g \<and> isGroupItem (items s g)"
    by (simp add: registry_inv_def)
  from bspec[OF this assms(2)] show ?thesis by simp
qed

lemma inv_disjD:
  assumes "registry_inv s" "(g, gd) \<in> set (m_groups s)" "(g, d) \<in> set (m_nodes s)"
  shows False
proof -
  from assms(1) have a: "\<forall>g \<in> fst ` set (m_groups s). g \<notin> fst ` set (m_nodes s)"
    by (simp add: registry_inv_def)
  from assms(2) have "g \<in> fst ` set (m_groups s)" by force
  from bspec[OF a this] assms(3) show False by force
qed


lemma inv_update_node:
  assumes inv: "registry_inv s" and lk: "map_of (m_nodes s) n = Some d"
      and u: "uid d' = uid d" and nd: "node d' = node d"
  shows "registry_inv (s\<lparr>m_nodes := qmap_insert n d' (m_nodes s)\<rparr>)"
proof (rule registry_invI)
  let ?s = "s\<lparr>m_nodes := qmap_insert n d' (m_nodes s)\<rparr>"
  from lk have mem: "(n, d) \<in> set (m_nodes s)" by (rule map_of_SomeD)
  have st: "set (m_nodes ?s) = insert (n, d') {e \<in> set (m_nodes s). fst e \<noteq> n}"
    using set_qmap_insert[OF inv_sorted_nodes[OF inv]] by simp
  have old: "\<And>k e. (k, e) \<in> set (m_nodes ?s) \<Longrightarrow> (k, e) = (n, d') \<or> (k, e) \<in> set (m_nodes s) \<and> k \<noteq> n"
    unfolding st by auto
  have dn: "node d = n \<and> uid d < m_nextNodeId s" by (rule inv_nodeD[OF inv mem])
  show "sorted_wrt (<) (map fst (m_nodes ?s))"
    using inv_sorted_nodes[OF inv] by (simp add: sorted_qmap_insert)
  show "sorted_wrt (<) (map fst (m_groups ?s))"
    using inv_sorted_groups[OF inv] by simp
  show "node e = k \<and> uid e < m_nextNodeId ?s" if "(k, e) \<in> set (m_nodes ?s)" for k e
    using old[OF that] dn u nd inv_nodeD[OF inv] by auto
  show "k = k'" if a: "(k, e) \<in> set (m_nodes ?s)" and b: "(k', e') \<in> set (m_nodes ?s)"
      and c: "uid e = uid e'" for k e k' e'
  proof -
    have a': "\<exists>x. (k, x) \<in> set (m_nodes s) \<and> uid x = uid e"
      using old[OF a] mem u by auto
    have b': "\<exists>x. (k', x) \<in> set (m_nodes s) \<and> uid x = uid e'"
      using old[OF b] mem u by auto
    from a' b' c show ?thesis using inv_uidD[OF inv] by metis
  qed
  show "group gd = g \<and> isGroupItem (items ?s g)" if "(g, gd) \<in> set (m_groups ?s)" for g gd
    using that inv_groupD[OF inv] by simp
  show False if a: "(g, gd) \<in> set (m_groups ?s)" and b: "(g, e) \<in> set (m_nodes ?s)" for g gd e
  proof -
    have "\<exists>x. (g, x) \<in> set (m_nodes s)" using old[OF b] mem by auto
    then show False using a inv_disjD[OF inv] by auto
  qed
qed

lemma inv_update_group:
  assumes inv: "registry_inv s" and lk: "map_of (m_groups s) g = Some gd"
      and gg: "group gd' = group gd"
  shows "registry_inv (s\<lparr>m_groups := qmap_insert g gd' (m_groups s)\<rparr>)"
proof (rule registry_invI)
  let ?s = "s\<lparr>m_groups := qmap_insert g gd' (m_groups s)\<rparr>"
  from lk have mem: "(g, gd) \<in> set (m_groups s)" by (rule map_of_SomeD)
  have st: "set (m_groups ?s) = insert (g, gd') {e \<in> set (m_groups s). fst e \<noteq> g}"
    using set_qmap_insert[OF inv_sorted_groups[OF inv]] by simp
  have old: "\<And>k e. (k, e) \<in> set (m_groups ?s) \<Longrightarrow> (k, e) = (g, gd') \<or> (k, e) \<in> set (m_groups s) \<and> k \<noteq> g"
    unfolding st by auto
  have dg: "group gd = g \<and> isGroupItem (items s g)" by (rule inv_groupD[OF inv mem])
  show "sorted_wrt (<) (map fst (m_nodes ?s))"
    using inv_sorted_nodes[OF inv] by simp
  show "sorted_wrt (<) (map fst (m_groups ?s))"
    using inv_sorted_groups[OF inv] by (simp add: sorted_qmap_insert)
  show "node e = k \<and> uid e < m_nextNodeId ?s" if "(k, e) \<in> set (m_nodes ?s)" for k e
    using that inv_nodeD[OF inv] by simp
  show "k = k'" if "(k, e) \<in> set (m_nodes ?s)" "(k', e') \<in> set (m_nodes ?s)" "uid e = uid e'"
    for k e k' e'
    using that inv_uidD[OF inv] by simp
  show "group e = k \<and> isGroupItem (items ?s k)" if "(k, e) \<in> set (m_groups ?s)" for k e
    using old[OF that] dg gg inv_groupD[OF inv] by auto
  show False if a: "(k, e) \<in> set (m_groups ?s)" and b: "(k, x) \<in> set (m_nodes ?s)" for k e x
  proof -
    have "\<exists>y. (k, y) \<in> set (m_groups s)" using old[OF a] mem by auto
    then show False using b inv_disjD[OF inv] by auto
  qed
qed

lemma inv_objects:
  assumes inv: "registry_inv s" and grp: "\<forall>g \<in> fst ` set (m_groups s). isGroupItem (its g)"
  shows "registry_inv (s\<lparr>ports := ps, items := its, conns := cs, nextConn := nc, nextPort := np\<rparr>)"
proof (rule registry_invI)
  let ?s = "s\<lparr>ports := ps, items := its, conns := cs, nextConn := nc, nextPort := np\<rparr>"
  show "sorted_wrt (<) (map fst (m_nodes ?s))" using inv_sorted_nodes[OF inv] by simp
  show "sorted_wrt (<) (map fst (m_groups ?s))" using inv_sorted_groups[OF inv] by simp
  show "node e = k \<and> uid e < m_nextNodeId ?s" if "(k, e) \<in> set (m_nodes ?s)" for k e
    using that inv_nodeD[OF inv] by simp
  show "k = k'" if "(k, e) \<in> set (m_nodes ?s)" "(k', e') \<in> set (m_nodes ?s)" "uid e = uid e'"
    for k e k' e'
    using that inv_uidD[OF inv] by simp
  show "group e = k \<and> isGroupItem (items ?s k)" if a: "(k, e) \<in> set (m_groups ?s)" for k e
  proof -
    from a have k: "k \<in> fst ` set (m_groups s)" by force
    from a inv_groupD[OF inv] have "group e = k" by simp
    with bspec[OF grp k] show ?thesis by simp
  qed
  show False if "(k, e) \<in> set (m_groups ?s)" "(k, x) \<in> set (m_nodes ?s)" for k e x
    using that inv_disjD[OF inv] by simp
qed

lemma inv_ports: "registry_inv s \<Longrightarrow> registry_inv (s\<lparr>ports := ps\<rparr>)"
  by (simp add: registry_inv_def)

lemma inv_registerNode:
  assumes inv: "registry_inv s"
  shows "registry_inv (snd (registerNode n s))"
proof (cases "isGroupItem (items s n) \<or> lookupNodeUnlocked s n \<noteq> None")
  case True
  then show ?thesis using inv by (auto simp: registerNode_def)
next
  case False
  then have ng: "\<not> isGroupItem (items s n)" and lk: "map_of (m_nodes s) n = None"
    by (auto simp: lookupNodeUnlocked_def)
  define d where "d = \<lparr>uid = m_nextNodeId s, node = n, inputsDescriptor = [],
                    outputsDescriptor = [], parametersInputsDescriptor = []\<rparr>"
  let ?s = "s\<lparr>m_nodes := qmap_insert n d (m_nodes s), m_nextNodeId := m_nextNodeId s + 1\<rparr>"
  have eq: "snd (registerNode n s) = ?s"
    using ng lk by (simp add: registerNode_def lookupNodeUnlocked_def d_def Let_def)
  have st: "set (m_nodes ?s) = insert (n, d) {e \<in> set (m_nodes s). fst e \<noteq> n}"
    using set_qmap_insert[OF inv_sorted_nodes[OF inv]] by simp
  have old: "\<And>k e. (k, e) \<in> set (m_nodes ?s) \<Longrightarrow> (k, e) = (n, d) \<or> (k, e) \<in> set (m_nodes s) \<and> k \<noteq> n"
    unfolding st by auto
  have "registry_inv ?s"
  proof (rule registry_invI)
    show "sorted_wrt (<) (map fst (m_nodes ?s))"
      using inv_sorted_nodes[OF inv] by (simp add: sorted_qmap_insert)
    show "sorted_wrt (<) (map fst (m_groups ?s))"
      using inv_sorted_groups[OF inv] by simp
    show "node e = k \<and> uid e < m_nextNodeId ?s" if "(k, e) \<in> set (m_nodes ?s)" for k e
      using old[OF that] inv_nodeD[OF inv] by (auto simp: d_def) fastforce
    show "k = k'" if a: "(k, e) \<in> set (m_nodes ?s)" and b: "(k', e') \<in> set (m_nodes ?s)"
        and c: "uid e = uid e'" for k e k' e'
    proof -
      consider "(k, e) = (n, d)" "(k', e') = (n, d)"
        | "(k, e) = (n, d)" "(k', e') \<in> set (m_nodes s)"
        | "(k, e) \<in> set (m_nodes s)" "(k', e') = (n, d)"
        | "(k, e) \<in> set (m_nodes s)" "(k', e') \<in> set (m_nodes s)"
        using old[OF a] old[OF b] by blast
      then show ?thesis
      proof cases
        case 1 then show ?thesis by simp
      next
        case 2 then show ?thesis using inv_nodeD[OF inv 2(2)] c by (simp add: d_def)
      next
        case 3 then show ?thesis using inv_nodeD[OF inv 3(1)] c by (simp add: d_def)
      next
        case 4 then show ?thesis using inv_uidD[OF inv _ _ c] by blast
      qed
    qed
    show "group gd = g \<and> isGroupItem (items ?s g)" if "(g, gd) \<in> set (m_groups ?s)" for g gd
      using that inv_groupD[OF inv] by simp
    show False if a: "(g, gd) \<in> set (m_groups ?s)" and b: "(g, e) \<in> set (m_nodes ?s)" for g gd e
    proof -
      from a have ga: "(g, gd) \<in> set (m_groups s)" by simp
      from old[OF b] show False
      proof
        assume "(g, e) = (n, d)"
        with inv_groupD[OF inv ga] ng show False by simp
      next
        assume "(g, e) \<in> set (m_nodes s) \<and> g \<noteq> n"
        with inv_disjD[OF inv ga] show False by blast
      qed
    qed
  qed
  with eq show ?thesis by simp
qed

lemma inv_remove_node:
  assumes inv: "registry_inv s"
  shows "registry_inv (s\<lparr>m_nodes := qmap_remove n (m_nodes s)\<rparr>)"
proof (rule registry_invI)
  let ?s = "s\<lparr>m_nodes := qmap_remove n (m_nodes s)\<rparr>"
  have old: "\<And>k e. (k, e) \<in> set (m_nodes ?s) \<Longrightarrow> (k, e) \<in> set (m_nodes s)"
    by (simp add: set_qmap_remove)
  show "sorted_wrt (<) (map fst (m_nodes ?s))"
    using inv_sorted_nodes[OF inv] by (simp add: sorted_qmap_remove)
  show "sorted_wrt (<) (map fst (m_groups ?s))"
    using inv_sorted_groups[OF inv] by simp
  show "node e = k \<and> uid e < m_nextNodeId ?s" if "(k, e) \<in> set (m_nodes ?s)" for k e
    using old[OF that] inv_nodeD[OF inv] by simp
  show "k = k'" if "(k, e) \<in> set (m_nodes ?s)" "(k', e') \<in> set (m_nodes ?s)" "uid e = uid e'"
    for k e k' e'
    using old[OF that(1)] old[OF that(2)] that(3) by (rule inv_uidD[OF inv])
  show "group gd = g \<and> isGroupItem (items ?s g)" if "(g, gd) \<in> set (m_groups ?s)" for g gd
    using that inv_groupD[OF inv] by simp
  show False if a: "(g, gd) \<in> set (m_groups ?s)" and b: "(g, e) \<in> set (m_nodes ?s)" for g gd e
    using inv_disjD[OF inv _ old[OF b]] a by simp
qed

lemma inv_unregisterNode: "registry_inv s \<Longrightarrow> registry_inv (unregisterNode n s)"
  by (simp add: unregisterNode_def inv_remove_node)

lemma inv_unregisterGroup:
  assumes inv: "registry_inv s"
  shows "registry_inv (unregisterGroup g s)"
  unfolding unregisterGroup_def
proof (rule registry_invI)
  let ?s = "s\<lparr>m_groups := qmap_remove g (m_groups s)\<rparr>"
  have old: "\<And>k e. (k, e) \<in> set (m_groups ?s) \<Longrightarrow> (k, e) \<in> set (m_groups s)"
    by (simp add: set_qmap_remove)
  show "sorted_wrt (<) (map fst (m_nodes ?s))"
    using inv_sorted_nodes[OF inv] by simp
  show "sorted_wrt (<) (map fst (m_groups ?s))"
    using inv_sorted_groups[OF inv] by (simp add: sorted_qmap_remove)
  show "node e = k \<and> uid e < m_nextNodeId ?s" if "(k, e) \<in> set (m_nodes ?s)" for k e
    using that inv_nodeD[OF inv] by simp
  show "k = k'" if "(k, e) \<in> set (m_nodes ?s)" "(k', e') \<in> set (m_nodes ?s)" "uid e = uid e'"
    for k e k' e'
    using that inv_uidD[OF inv] by simp
  show "group gd = k \<and> isGroupItem (items ?s k)" if "(k, gd) \<in> set (m_groups ?s)" for k gd
    using inv_groupD[OF inv old[OF that]] by simp
  show False if a: "(k, gd) \<in> set (m_groups ?s)" and b: "(k, e) \<in> set (m_nodes ?s)" for k gd e
    using inv_disjD[OF inv old[OF a]] b by simp
qed

lemma inv_registerGroup:
  assumes inv: "registry_inv s" and ig: "isGroupItem (items s g)"
  shows "registry_inv (snd (registerGroup g s))"
proof (cases "lookupGroupUnlocked s g")
  case (Some a)
  then show ?thesis using inv by (simp add: registerGroup_def)
next
  case None
  define d where "d = \<lparr>g_uid = m_nextGroupId s, group = g, memberNodes = [],
                    forwardInputsDescriptor = [], forwardOutputsDescriptor = [],
                    forwardParametersInputsDescriptor = []\<rparr>"
  let ?s = "s\<lparr>m_groups := qmap_insert g d (m_groups s),
              m_nextGroupId := m_nextGroupId s + 1,
              m_nodes := qmap_remove g (m_nodes s)\<rparr>"
  have eq: "snd (registerGroup g s) = ?s"
    using None by (simp add: registerGroup_def d_def Let_def)
  have st: "set (m_groups ?s) = insert (g, d) {e \<in> set (m_groups s). fst e \<noteq> g}"
    using set_qmap_insert[OF inv_sorted_groups[OF inv]] by simp
  have oldg: "\<And>k e. (k, e) \<in> set (m_groups ?s) \<Longrightarrow> (k, e) = (g, d) \<or> (k, e) \<in> set (m_groups s)"
    unfolding st by auto
  have oldn: "\<And>k e. (k, e) \<in> set (m_nodes ?s) \<Longrightarrow> (k, e) \<in> set (m_nodes s) \<and> k \<noteq> g"
    by (simp add: set_qmap_remove)
  have "registry_inv ?s"
  proof (rule registry_invI)
    show "sorted_wrt (<) (map fst (m_nodes ?s))"
      using inv_sorted_nodes[OF inv] by (simp add: sorted_qmap_remove)
    show "sorted_wrt (<) (map fst (m_groups ?s))"
      using inv_sorted_groups[OF inv] by (simp add: sorted_qmap_insert)
    show "node e = k \<and> uid e < m_nextNodeId ?s" if "(k, e) \<in> set (m_nodes ?s)" for k e
      using oldn[OF that] inv_nodeD[OF inv, of k e] by simp
    show "k = k'" if "(k, e) \<in> set (m_nodes ?s)" "(k', e') \<in> set (m_nodes ?s)" "uid e = uid e'"
      for k e k' e'
      using oldn[OF that(1)] oldn[OF that(2)] that(3) inv_uidD[OF inv, of k e k' e'] by blast
    show "group gd = k \<and> isGroupItem (items ?s k)" if "(k, gd) \<in> set (m_groups ?s)" for k gd
      using oldg[OF that] ig inv_groupD[OF inv] by (auto simp: d_def)
    show False if a: "(k, gd) \<in> set (m_groups ?s)" and b: "(k, e) \<in> set (m_nodes ?s)" for k gd e
      using oldg[OF a] oldn[OF b] inv_disjD[OF inv] by auto
  qed
  with eq show ?thesis by simp
qed

lemma inv_unregisterConnection:
  assumes inv: "registry_inv s"
  shows "registry_inv (unregisterConnection c s)"
proof (rule registry_invI)
  let ?f = "\<lambda>nd. nd\<lparr>inputsDescriptor := removeConn c (inputsDescriptor nd),
                     outputsDescriptor := removeConn c (outputsDescriptor nd),
                     parametersInputsDescriptor := removeConn c (parametersInputsDescriptor nd)\<rparr>"
  let ?s = "unregisterConnection c s"
  have mn: "m_nodes ?s = map (\<lambda>(n, nd). (n, ?f nd)) (m_nodes s)"
    by (simp add: unregisterConnection_def)
  have keys: "map fst (m_nodes ?s) = map fst (m_nodes s)"
    unfolding mn by (induction "m_nodes s") auto
  have old: "\<And>k e. (k, e) \<in> set (m_nodes ?s) \<Longrightarrow> \<exists>x. (k, x) \<in> set (m_nodes s) \<and> e = ?f x"
    unfolding mn by auto
  have rest: "m_groups ?s = m_groups s" "m_nextNodeId ?s = m_nextNodeId s" "items ?s = items s"
    by (simp_all add: unregisterConnection_def)
  show "sorted_wrt (<) (map fst (m_nodes ?s))"
    using inv_sorted_nodes[OF inv] by (simp only: keys)
  show "sorted_wrt (<) (map fst (m_groups ?s))"
    using inv_sorted_groups[OF inv] by (simp add: rest)
  show "node e = k \<and> uid e < m_nextNodeId ?s" if "(k, e) \<in> set (m_nodes ?s)" for k e
    using old[OF that] inv_nodeD[OF inv] by (auto simp: rest)
  show "k = k'" if a: "(k, e) \<in> set (m_nodes ?s)" and b: "(k', e') \<in> set (m_nodes ?s)"
      and c: "uid e = uid e'" for k e k' e'
  proof -
    from old[OF a] obtain x where x: "(k, x) \<in> set (m_nodes s)" "uid x = uid e" by auto
    from old[OF b] obtain y where y: "(k', y) \<in> set (m_nodes s)" "uid y = uid e'" by auto
    from inv_uidD[OF inv x(1) y(1)] x(2) y(2) c show ?thesis by simp
  qed
  show "group gd = g \<and> isGroupItem (items ?s g)" if "(g, gd) \<in> set (m_groups ?s)" for g gd
    using that inv_groupD[OF inv] by (simp add: rest)
  show False if a: "(g, gd) \<in> set (m_groups ?s)" and b: "(g, e) \<in> set (m_nodes ?s)" for g gd e
  proof -
    from old[OF b] obtain x where "(g, x) \<in> set (m_nodes s)" by auto
    with a inv_disjD[OF inv] show False by (auto simp: rest)
  qed
qed

lemma inv_pushOutput: "registry_inv s \<Longrightarrow> registry_inv (pushOutput n p c s)"
  by (auto simp: pushOutput_def lookupNodeUnlocked_def intro: inv_update_node split: option.splits)

lemma inv_pushInput: "registry_inv s \<Longrightarrow> registry_inv (pushInput n p c s)"
  by (auto simp: pushInput_def lookupNodeUnlocked_def intro: inv_update_node split: option.splits)

lemma inv_registerConnection: "registry_inv s \<Longrightarrow> registry_inv (registerConnection a b c s)"
  by (auto simp: registerConnection_def Let_def inv_pushOutput inv_pushInput split: option.splits)

lemma inv_registerInput: "registry_inv s \<Longrightarrow> registry_inv (registerInput n p s)"
  by (auto simp: registerInput_def lookupNodeUnlocked_def intro: inv_update_node split: option.splits)

lemma inv_registerOutput: "registry_inv s \<Longrightarrow> registry_inv (registerOutput n p s)"
  by (auto simp: registerOutput_def lookupNodeUnlocked_def intro: inv_update_node split: option.splits)

lemma inv_registerParameter: "registry_inv s \<Longrightarrow> registry_inv (registerParameter n p s)"
  by (auto simp: registerParameter_def lookupNodeUnlocked_def intro: inv_update_node split: option.splits)

lemma inv_unregisterInput: "registry_inv s \<Longrightarrow> registry_inv (unregisterInput n p s)"
  by (auto simp: unregisterInput_def lookupNodeUnlocked_def intro: inv_update_node split: option.splits)

lemma inv_unregisterOutput: "registry_inv s \<Longrightarrow> registry_inv (unregisterOutput n p s)"
  by (auto simp: unregisterOutput_def lookupNodeUnlocked_def intro: inv_update_node split: option.splits)

lemma inv_unregisterParameter: "registry_inv s \<Longrightarrow> registry_inv (unregisterParameter n p s)"
  by (auto simp: unregisterParameter_def lookupNodeUnlocked_def intro: inv_update_node split: option.splits)

lemma inv_addNodeToGroup: "registry_inv s \<Longrightarrow> registry_inv (addNodeToGroup g n s)"
  by (auto simp: addNodeToGroup_def lookupGroupUnlocked_def intro: inv_update_group split: option.splits)

lemma inv_removeNodeFromGroup: "registry_inv s \<Longrightarrow> registry_inv (removeNodeFromGroup g n s)"
  by (auto simp: removeNodeFromGroup_def lookupGroupUnlocked_def intro: inv_update_group split: option.splits)

lemma inv_copyTagsFrom: "registry_inv s \<Longrightarrow> registry_inv (copyTagsFrom f a s)"
  by (simp add: copyTagsFrom_def inv_ports)

lemma inv_registerForwardInput: "registry_inv s \<Longrightarrow> registry_inv (registerForwardInput g f a s)"
  by (auto simp: registerForwardInput_def lookupGroupUnlocked_def
        intro!: inv_copyTagsFrom inv_update_group split: option.splits)

lemma inv_registerForwardOutput: "registry_inv s \<Longrightarrow> registry_inv (registerForwardOutput g f a s)"
  by (auto simp: registerForwardOutput_def lookupGroupUnlocked_def
        intro!: inv_copyTagsFrom inv_update_group split: option.splits)

lemma inv_registerForwardParameter:
  "registry_inv s \<Longrightarrow> registry_inv (registerForwardParameter g f a s)"
  by (auto simp: registerForwardParameter_def lookupGroupUnlocked_def
        intro!: inv_copyTagsFrom inv_update_group split: option.splits)

lemma inv_unregisterForwardPort: "registry_inv s \<Longrightarrow> registry_inv (unregisterForwardPort g f s)"
  by (auto simp: unregisterForwardPort_def lookupGroupUnlocked_def
        intro: inv_update_group split: option.splits)

lemma inv_init:
  "m_nodes s = [] \<Longrightarrow> m_groups s = [] \<Longrightarrow> registry_inv s"
  by (simp add: registry_inv_def)

lemma reachable_inv: "reachable s \<Longrightarrow> registry_inv s"
proof (induction rule: reachable.induct)
  case (r_init s)
  then show ?case by (simp add: inv_init)
next
  case (r_objects s its ps cs nc np)
  then show ?case by (simp add: inv_objects)
qed (simp_all add: inv_registerNode inv_unregisterNode inv_registerInput inv_registerOutput
      inv_registerParameter inv_unregisterInput inv_unregisterOutput inv_unregisterParameter
      inv_registerConnection inv_unregisterConnection inv_registerGroup inv_unregisterGroup
      inv_addNodeToGroup inv_removeNodeFromGroup inv_registerForwardInput
      inv_registerForwardOutput inv_registerForwardParameter inv_unregisterForwardPort)

section \<open>Node and group registration\<close>

lemma keys_distinct: "sorted_wrt (<) (map fst (m :: (nat \<times> 'v) list)) \<Longrightarrow> distinct (map fst m)"
  by (simp add: strict_sorted_iff)

lemma inv_distinct_uids:
  assumes inv: "registry_inv s"
  shows "distinct (map uid (allNodes s))"
proof -
  have dk: "distinct (map fst (m_nodes s))" by (rule keys_distinct[OF inv_sorted_nodes[OF inv]])
  then have dm: "distinct (m_nodes s)" by (simp add: distinct_map)
  have inj: "inj_on (uid \<circ> snd) (set (m_nodes s))"
  proof (rule inj_onI)
    fix x y assume x: "x \<in> set (m_nodes s)" and y: "y \<in> set (m_nodes s)"
      and e: "(uid \<circ> snd) x = (uid \<circ> snd) y"
    obtain k d where xe: "x = (k, d)" by (cases x)
    obtain k' d' where ye: "y = (k', d')" by (cases y)
    from e have "uid d = uid d'" by (simp add: xe ye)
    with inv_uidD[OF inv] x y have "k = k'" unfolding xe ye by blast
    with dk x y show "x = y" unfolding xe ye by (auto dest: eq_key_imp_eq_value)
  qed
  have "distinct (map (uid \<circ> snd) (m_nodes s))"
    using dm inj by (simp add: distinct_map)
  then show ?thesis by (simp add: allNodes_def qmap_values_def)
qed

lemma registerNode_again:
  assumes "\<not> isGroupItem (items s n)"
  shows "case registerNode n s of (i, s1) \<Rightarrow> registerNode n s1 = (i, s1)"
  using assms
  by (auto simp: registerNode_def lookupNodeUnlocked_def Let_def map_of_qmap_insert
           split: option.splits)

lemma registerNode_fresh:
  assumes inv: "registry_inv s" and "\<not> isGroupItem (items s n)" "lookupNodeUnlocked s n = None"
  shows "fst (registerNode n s) \<notin> uid ` set (allNodes s)"
proof
  assume "fst (registerNode n s) \<in> uid ` set (allNodes s)"
  then obtain k d where kd: "(k, d) \<in> set (m_nodes s)" and "uid d = fst (registerNode n s)"
    by (auto simp: allNodes_def qmap_values_def)
  then have "uid d = m_nextNodeId s" using assms(2,3) by (simp add: registerNode_def Let_def)
  with inv_nodeD[OF inv kd] show False by simp
qed

lemma length_qmap_insert_new:
  "map_of m k = None \<Longrightarrow> length (qmap_insert k v m) = Suc (length m)"
  by (induction m) (auto split: if_splits)

lemma registerNode_new:
  assumes "\<not> isGroupItem (items s n)" "lookupNodeUnlocked s n = None"
  shows "registerNode n s =
     (m_nextNodeId s,
      s\<lparr>m_nodes := qmap_insert n \<lparr>uid = m_nextNodeId s, node = n, inputsDescriptor = [],
                                    outputsDescriptor = [], parametersInputsDescriptor = []\<rparr>
                       (m_nodes s),
        m_nextNodeId := m_nextNodeId s + 1\<rparr>)"
  using assms by (simp add: registerNode_def Let_def)

lemma registerNode_known:
  assumes "\<not> isGroupItem (items s n)" "lookupNodeUnlocked s n = Some d"
  shows "registerNode n s = (uid d, s)"
  using assms by (simp add: registerNode_def)

lemma registerNode_stores:
  assumes inv: "registry_inv s" and ng: "\<not> isGroupItem (items s n)"
  shows "\<exists>d. lookupNodeUnlocked (snd (registerNode n s)) n = Some d
            \<and> uid d = fst (registerNode n s) \<and> node d = n"
proof (cases "lookupNodeUnlocked s n")
  case None
  show ?thesis
    unfolding registerNode_new[OF ng None]
    by (simp add: lookupNodeUnlocked_def map_of_qmap_insert)
next
  case (Some d)
  then have "(n, d) \<in> set (m_nodes s)"
    by (auto simp: lookupNodeUnlocked_def dest: map_of_SomeD)
  from inv_nodeD[OF inv this] Some show ?thesis
    unfolding registerNode_known[OF ng Some] by simp
qed

lemma registerNode_others:
  "m \<noteq> n \<Longrightarrow> lookupNodeUnlocked (snd (registerNode n s)) m = lookupNodeUnlocked s m"
  by (auto simp: registerNode_def lookupNodeUnlocked_def Let_def map_of_qmap_insert
        split: option.splits)

lemma inv_lookup_uids:
  assumes inv: "registry_inv s"
      and "lookupNodeUnlocked s a = Some da" "lookupNodeUnlocked s b = Some db" "a \<noteq> b"
  shows "uid da \<noteq> uid db"
proof
  assume e: "uid da = uid db"
  from assms(2,3) have "(a, da) \<in> set (m_nodes s)" "(b, db) \<in> set (m_nodes s)"
    by (auto simp: lookupNodeUnlocked_def dest: map_of_SomeD)
  from inv_uidD[OF inv this e] assms(4) show False by simp
qed

text \<open>
  C3.  Let \<open>n\<close> be a node that is not a group, in a reachable state.  The descriptors of
  distinct registered nodes carry distinct ids, before the call and after it.
  \<open>registerNode n\<close> returns an id \<open>i\<close> and a state in which the descriptor stored for \<open>n\<close>
  carries \<open>i\<close>, the descriptor of no other node carries \<open>i\<close>, and the descriptor of every
  other node is as before.  A further \<open>registerNode n\<close> returns the same \<open>i\<close> and the same
  state, so \<open>allNodes\<close> keeps its length.  When \<open>n\<close> was not registered, \<open>i\<close> is the id of
  no descriptor present before the call and \<open>allNodes\<close> grows by one; when it was, the
  state is returned unchanged.
\<close>

theorem registerNode_idempotent_unique_ids:
  assumes "reachable s" "\<not> isGroupItem (items s n)"
  shows "(\<forall>a b da db. lookupNodeUnlocked s a = Some da \<and> lookupNodeUnlocked s b = Some db
              \<and> a \<noteq> b \<longrightarrow> uid da \<noteq> uid db)
     \<and> distinct (map uid (allNodes s))
     \<and> (case registerNode n s of (i, s1) \<Rightarrow>
           (\<exists>d. lookupNodeUnlocked s1 n = Some d \<and> uid d = i \<and> node d = n)
         \<and> registerNode n s1 = (i, s1)
         \<and> length (allNodes (snd (registerNode n s1))) = length (allNodes s1)
         \<and> (\<forall>m. m \<noteq> n \<longrightarrow> lookupNodeUnlocked s1 m = lookupNodeUnlocked s m)
         \<and> (\<forall>m dm. m \<noteq> n \<and> lookupNodeUnlocked s1 m = Some dm \<longrightarrow> uid dm \<noteq> i)
         \<and> distinct (map uid (allNodes s1))
         \<and> (lookupNodeUnlocked s n = None \<longrightarrow>
               i \<notin> uid ` set (allNodes s)
               \<and> length (allNodes s1) = Suc (length (allNodes s)))
         \<and> (lookupNodeUnlocked s n \<noteq> None \<longrightarrow> s1 = s))"
proof -
  note inv = reachable_inv[OF assms(1)]
  obtain i s1 where rs: "registerNode n s = (i, s1)" by (cases "registerNode n s")
  have r1: "reachable s1" using r_registerNode[OF assms(1), of n] rs by simp
  note inv1 = reachable_inv[OF r1]
  have st: "\<exists>d. lookupNodeUnlocked s1 n = Some d \<and> uid d = i \<and> node d = n"
    using registerNode_stores[OF inv assms(2)] rs by simp
  have again: "registerNode n s1 = (i, s1)"
    using registerNode_again[OF assms(2)] rs by simp
  have len: "length (allNodes (snd (registerNode n s1))) = length (allNodes s1)"
    unfolding again by simp
  have oth: "\<forall>m. m \<noteq> n \<longrightarrow> lookupNodeUnlocked s1 m = lookupNodeUnlocked s m"
    using registerNode_others[of _ n s] rs by simp
  have uniq: "\<forall>m dm. m \<noteq> n \<and> lookupNodeUnlocked s1 m = Some dm \<longrightarrow> uid dm \<noteq> i"
    using st inv_lookup_uids[OF inv1] by blast
  have fresh: "lookupNodeUnlocked s n = None \<longrightarrow>
               i \<notin> uid ` set (allNodes s) \<and> length (allNodes s1) = Suc (length (allNodes s))"
  proof
    assume n: "lookupNodeUnlocked s n = None"
    have "i \<notin> uid ` set (allNodes s)" using registerNode_fresh[OF inv assms(2) n] rs by simp
    moreover have "length (allNodes s1) = Suc (length (allNodes s))"
      using rs n unfolding registerNode_new[OF assms(2) n]
      by (auto simp: allNodes_def qmap_values_def lookupNodeUnlocked_def length_qmap_insert_new)
    ultimately show "i \<notin> uid ` set (allNodes s)
                     \<and> length (allNodes s1) = Suc (length (allNodes s))" ..
  qed
  have known: "lookupNodeUnlocked s n \<noteq> None \<longrightarrow> s1 = s"
    using rs assms(2) by (auto simp: registerNode_def)
  have pairs: "\<forall>a b da db. lookupNodeUnlocked s a = Some da \<and> lookupNodeUnlocked s b = Some db
              \<and> a \<noteq> b \<longrightarrow> uid da \<noteq> uid db"
    using inv_lookup_uids[OF inv] by blast
  show ?thesis
    unfolding rs prod.case
    using pairs inv_distinct_uids[OF inv] st again len oth uniq inv_distinct_uids[OF inv1]
      fresh known
    by blast
qed

lemma reachable_exFresh: "reachable exFresh"
  by (rule r_init) (simp_all add: exFresh_def)

lemma reachable_exOneNode: "reachable (snd (registerNode 1 exFresh))"
  by (rule r_registerNode[OF reachable_exFresh])

theorem registerNode_idempotent_unique_ids_witness:
  "map uid (allNodes (snd (registerNode 1 exFresh))) = [1]
   \<and> registerNode 2 (snd (registerNode 1 exFresh))
       = (2, snd (registerNode 2 (snd (registerNode 1 exFresh))))
   \<and> map uid (allNodes (snd (registerNode 2 (snd (registerNode 1 exFresh))))) = [1, 2]
   \<and> (\<exists>d. lookupNodeUnlocked (snd (registerNode 2 (snd (registerNode 1 exFresh)))) 2 = Some d
          \<and> uid d = 2 \<and> node d = 2)
   \<and> registerNode 2 (snd (registerNode 2 (snd (registerNode 1 exFresh))))
       = (2, snd (registerNode 2 (snd (registerNode 1 exFresh))))"
proof -
  let ?s = "snd (registerNode 1 exFresh)"
  have a: "\<not> isGroupItem (items ?s 2)" by code_simp
  have b: "fst (registerNode 2 ?s) = 2" by code_simp
  have c: "map uid (allNodes ?s) = [1]" by code_simp
  have d: "map uid (allNodes (snd (registerNode 2 ?s))) = [1, 2]" by code_simp
  obtain s2 where e: "registerNode 2 ?s = (2, s2)"
    using b by (cases "registerNode 2 ?s") simp
  have s2: "snd (registerNode 2 ?s) = s2" unfolding e by simp
  note th = registerNode_idempotent_unique_ids[OF reachable_exOneNode a]
  from th have f: "(\<exists>d. lookupNodeUnlocked s2 2 = Some d \<and> uid d = 2 \<and> node d = 2)
                \<and> registerNode 2 s2 = (2, s2)"
    unfolding e prod.case by blast
  from c d e f show ?thesis unfolding s2 by blast
qed

text \<open>
  C10.  In every reachable state no item is a key of both the node table and the group
  table; \<open>registerNode\<close> on a \<open>GroupItem\<close> returns \<open>-1\<close> and the state unchanged; and
  \<open>registerGroup\<close> on an item that is not yet a registered group leaves it in the group
  table and out of the node table.
\<close>

theorem node_and_group_tables_disjoint:
  assumes "reachable s"
  shows "(\<forall>x. \<not> (qmap_contains (m_nodes s) x \<and> qmap_contains (m_groups s) x))
       \<and> (isGroupItem (items s n) \<longrightarrow> registerNode n s = (- 1, s))
       \<and> (lookupGroupUnlocked s g = None \<longrightarrow>
            lookupGroupUnlocked (snd (registerGroup g s)) g \<noteq> None
            \<and> lookupNodeUnlocked (snd (registerGroup g s)) g = None)"
proof -
  note inv = reachable_inv[OF assms]
  have "\<not> (qmap_contains (m_nodes s) x \<and> qmap_contains (m_groups s) x)" for x
  proof
    assume "qmap_contains (m_nodes s) x \<and> qmap_contains (m_groups s) x"
    then obtain d gd where "map_of (m_nodes s) x = Some d" "map_of (m_groups s) x = Some gd"
      by (auto simp: qmap_contains_def)
    then have "(x, d) \<in> set (m_nodes s)" "(x, gd) \<in> set (m_groups s)"
      by (auto dest: map_of_SomeD)
    with inv_disjD[OF inv] show False by blast
  qed
  moreover have "isGroupItem (items s n) \<Longrightarrow> registerNode n s = (- 1, s)"
    by (simp add: registerNode_def)
  moreover have "lookupGroupUnlocked s g = None \<Longrightarrow>
            lookupGroupUnlocked (snd (registerGroup g s)) g \<noteq> None
            \<and> lookupNodeUnlocked (snd (registerGroup g s)) g = None"
    by (simp add: registerGroup_def lookupGroupUnlocked_def lookupNodeUnlocked_def Let_def
          map_of_qmap_insert map_of_qmap_remove)
  ultimately show ?thesis by blast
qed

lemma reachable_exGroupCtor: "reachable exGroupCtor"
proof -
  have "reachable (snd (registerNode 5 exFresh))"
    by (rule r_registerNode[OF reachable_exFresh])
  then have "reachable ((snd (registerNode 5 exFresh))\<lparr>ports := ports exGroupCtor,
      items := items exGroupCtor, conns := conns exGroupCtor,
      nextConn := nextConn exGroupCtor, nextPort := nextPort exGroupCtor\<rparr>)"
    by (rule r_objects) (simp add: registerNode_def exFresh_def exItems_def noItem_def lookupNodeUnlocked_def)
  moreover have "(snd (registerNode 5 exFresh))\<lparr>ports := ports exGroupCtor,
      items := items exGroupCtor, conns := conns exGroupCtor,
      nextConn := nextConn exGroupCtor, nextPort := nextPort exGroupCtor\<rparr> = exGroupCtor"
    by (simp add: registerNode_def exFresh_def exItems_def noItem_def lookupNodeUnlocked_def exGroupCtor_def)
  ultimately show ?thesis by simp
qed

theorem node_and_group_tables_disjoint_witness:
  "lookupNodeUnlocked exGroupCtor 5 \<noteq> None
   \<and> registerNode 5 exGroupCtor = (- 1, exGroupCtor)
   \<and> lookupGroupUnlocked (snd (registerGroup 5 exGroupCtor)) 5 \<noteq> None
   \<and> lookupNodeUnlocked (snd (registerGroup 5 exGroupCtor)) 5 = None
   \<and> \<not> (qmap_contains (m_nodes exGroupCtor) 5 \<and> qmap_contains (m_groups exGroupCtor) 5)"
proof -
  have a: "isGroupItem (items exGroupCtor 5)" by (simp add: exGroupCtor_def)
  have b: "lookupGroupUnlocked exGroupCtor 5 = None"
    by (simp add: exGroupCtor_def lookupGroupUnlocked_def)
  have c: "lookupNodeUnlocked exGroupCtor 5 \<noteq> None"
    by (simp add: exGroupCtor_def lookupNodeUnlocked_def)
  from node_and_group_tables_disjoint[OF reachable_exGroupCtor, of 5 5] a b c show ?thesis by blast
qed

section \<open>Forwarding tables\<close>

lemma qmap_at_insert: "qmap_at (qmap_insert k v m) k' = (if k' = k then v else qmap_at m k')"
  by (simp add: qmap_at_def map_of_qmap_insert)

lemma registerForwardInput_step:
  assumes "lookupGroupUnlocked s g = Some gd"
  shows "\<exists>gd'. lookupGroupUnlocked (registerForwardInput g f c s) g = Some gd'
          \<and> qmap_at (forwardInputsDescriptor gd') f = qmap_at (forwardInputsDescriptor gd) f @ [c]
          \<and> (\<forall>x. x \<noteq> f \<longrightarrow> ports (registerForwardInput g f c s) x = ports s x)
          \<and> tagBitMask (ports (registerForwardInput g f c s) f)
              = tagBitMask (ports (registerForwardInput g f c s) c)"
  using assms
  by (simp add: registerForwardInput_def copyTagsFrom_def lookupGroupUnlocked_def
        map_of_qmap_insert qmap_at_insert)

lemma registerForwardInput_fold:
  assumes "lookupGroupUnlocked s g = Some gd"
  shows "\<exists>gd'. lookupGroupUnlocked (fold (registerForwardInput g f) cs s) g = Some gd'
          \<and> qmap_at (forwardInputsDescriptor gd') f = qmap_at (forwardInputsDescriptor gd) f @ cs
          \<and> (\<forall>x. x \<noteq> f \<longrightarrow> ports (fold (registerForwardInput g f) cs s) x = ports s x)
          \<and> (cs \<noteq> [] \<longrightarrow> tagBitMask (ports (fold (registerForwardInput g f) cs s) f)
                = tagBitMask (ports (fold (registerForwardInput g f) cs s) (last cs)))"
  using assms
proof (induction cs arbitrary: s gd)
  case Nil
  then show ?case by simp
next
  case (Cons c cs)
  let ?s1 = "registerForwardInput g f c s"
  from registerForwardInput_step[OF Cons.prems, of f c] obtain gd1 where
    g1: "lookupGroupUnlocked ?s1 g = Some gd1"
    and a1: "qmap_at (forwardInputsDescriptor gd1) f = qmap_at (forwardInputsDescriptor gd) f @ [c]"
    and p1: "\<forall>x. x \<noteq> f \<longrightarrow> ports ?s1 x = ports s x"
    and t1: "tagBitMask (ports ?s1 f) = tagBitMask (ports ?s1 c)"
    by blast
  from Cons.IH[OF g1] obtain gd' where
    g2: "lookupGroupUnlocked (fold (registerForwardInput g f) cs ?s1) g = Some gd'"
    and a2: "qmap_at (forwardInputsDescriptor gd') f = qmap_at (forwardInputsDescriptor gd1) f @ cs"
    and p2: "\<forall>x. x \<noteq> f \<longrightarrow> ports (fold (registerForwardInput g f) cs ?s1) x = ports ?s1 x"
    and t2: "cs \<noteq> [] \<longrightarrow> tagBitMask (ports (fold (registerForwardInput g f) cs ?s1) f)
                = tagBitMask (ports (fold (registerForwardInput g f) cs ?s1) (last cs))"
    by blast
  show ?case
  proof (intro exI[of _ gd'] conjI)
    show "lookupGroupUnlocked (fold (registerForwardInput g f) (c # cs) s) g = Some gd'"
      using g2 by simp
    show "qmap_at (forwardInputsDescriptor gd') f = qmap_at (forwardInputsDescriptor gd) f @ c # cs"
      using a1 a2 by simp
    show "\<forall>x. x \<noteq> f \<longrightarrow> ports (fold (registerForwardInput g f) (c # cs) s) x = ports s x"
      using p1 p2 by simp
    show "c # cs \<noteq> [] \<longrightarrow> tagBitMask (ports (fold (registerForwardInput g f) (c # cs) s) f)
                = tagBitMask (ports (fold (registerForwardInput g f) (c # cs) s) (last (c # cs)))"
      using t1 t2 by (cases "cs = []") simp_all
  qed
qed

lemma registerForwardOutput_step:
  assumes "lookupGroupUnlocked s g = Some gd"
  shows "\<exists>gd'. lookupGroupUnlocked (registerForwardOutput g f c s) g = Some gd'
          \<and> qmap_at (forwardOutputsDescriptor gd') f = qmap_at (forwardOutputsDescriptor gd) f @ [c]
          \<and> (\<forall>x. x \<noteq> f \<longrightarrow> ports (registerForwardOutput g f c s) x = ports s x)
          \<and> tagBitMask (ports (registerForwardOutput g f c s) f)
              = tagBitMask (ports (registerForwardOutput g f c s) c)"
  using assms
  by (simp add: registerForwardOutput_def copyTagsFrom_def lookupGroupUnlocked_def
        map_of_qmap_insert qmap_at_insert)

lemma registerForwardOutput_fold:
  assumes "lookupGroupUnlocked s g = Some gd"
  shows "\<exists>gd'. lookupGroupUnlocked (fold (registerForwardOutput g f) cs s) g = Some gd'
          \<and> qmap_at (forwardOutputsDescriptor gd') f = qmap_at (forwardOutputsDescriptor gd) f @ cs
          \<and> (\<forall>x. x \<noteq> f \<longrightarrow> ports (fold (registerForwardOutput g f) cs s) x = ports s x)
          \<and> (cs \<noteq> [] \<longrightarrow> tagBitMask (ports (fold (registerForwardOutput g f) cs s) f)
                = tagBitMask (ports (fold (registerForwardOutput g f) cs s) (last cs)))"
  using assms
proof (induction cs arbitrary: s gd)
  case Nil
  then show ?case by simp
next
  case (Cons c cs)
  let ?s1 = "registerForwardOutput g f c s"
  from registerForwardOutput_step[OF Cons.prems, of f c] obtain gd1 where
    g1: "lookupGroupUnlocked ?s1 g = Some gd1"
    and a1: "qmap_at (forwardOutputsDescriptor gd1) f = qmap_at (forwardOutputsDescriptor gd) f @ [c]"
    and p1: "\<forall>x. x \<noteq> f \<longrightarrow> ports ?s1 x = ports s x"
    and t1: "tagBitMask (ports ?s1 f) = tagBitMask (ports ?s1 c)"
    by blast
  from Cons.IH[OF g1] obtain gd' where
    g2: "lookupGroupUnlocked (fold (registerForwardOutput g f) cs ?s1) g = Some gd'"
    and a2: "qmap_at (forwardOutputsDescriptor gd') f = qmap_at (forwardOutputsDescriptor gd1) f @ cs"
    and p2: "\<forall>x. x \<noteq> f \<longrightarrow> ports (fold (registerForwardOutput g f) cs ?s1) x = ports ?s1 x"
    and t2: "cs \<noteq> [] \<longrightarrow> tagBitMask (ports (fold (registerForwardOutput g f) cs ?s1) f)
                = tagBitMask (ports (fold (registerForwardOutput g f) cs ?s1) (last cs))"
    by blast
  show ?case
  proof (intro exI[of _ gd'] conjI)
    show "lookupGroupUnlocked (fold (registerForwardOutput g f) (c # cs) s) g = Some gd'"
      using g2 by simp
    show "qmap_at (forwardOutputsDescriptor gd') f = qmap_at (forwardOutputsDescriptor gd) f @ c # cs"
      using a1 a2 by simp
    show "\<forall>x. x \<noteq> f \<longrightarrow> ports (fold (registerForwardOutput g f) (c # cs) s) x = ports s x"
      using p1 p2 by simp
    show "c # cs \<noteq> [] \<longrightarrow> tagBitMask (ports (fold (registerForwardOutput g f) (c # cs) s) f)
                = tagBitMask (ports (fold (registerForwardOutput g f) (c # cs) s) (last (c # cs)))"
      using t1 t2 by (cases "cs = []") simp_all
  qed
qed

lemma registerForwardParameter_step:
  assumes "lookupGroupUnlocked s g = Some gd"
  shows "\<exists>gd'. lookupGroupUnlocked (registerForwardParameter g f c s) g = Some gd'
          \<and> qmap_at (forwardParametersInputsDescriptor gd') f = qmap_at (forwardParametersInputsDescriptor gd) f @ [c]
          \<and> (\<forall>x. x \<noteq> f \<longrightarrow> ports (registerForwardParameter g f c s) x = ports s x)
          \<and> tagBitMask (ports (registerForwardParameter g f c s) f)
              = tagBitMask (ports (registerForwardParameter g f c s) c)"
  using assms
  by (simp add: registerForwardParameter_def copyTagsFrom_def lookupGroupUnlocked_def
        map_of_qmap_insert qmap_at_insert)

lemma registerForwardParameter_fold:
  assumes "lookupGroupUnlocked s g = Some gd"
  shows "\<exists>gd'. lookupGroupUnlocked (fold (registerForwardParameter g f) cs s) g = Some gd'
          \<and> qmap_at (forwardParametersInputsDescriptor gd') f = qmap_at (forwardParametersInputsDescriptor gd) f @ cs
          \<and> (\<forall>x. x \<noteq> f \<longrightarrow> ports (fold (registerForwardParameter g f) cs s) x = ports s x)
          \<and> (cs \<noteq> [] \<longrightarrow> tagBitMask (ports (fold (registerForwardParameter g f) cs s) f)
                = tagBitMask (ports (fold (registerForwardParameter g f) cs s) (last cs)))"
  using assms
proof (induction cs arbitrary: s gd)
  case Nil
  then show ?case by simp
next
  case (Cons c cs)
  let ?s1 = "registerForwardParameter g f c s"
  from registerForwardParameter_step[OF Cons.prems, of f c] obtain gd1 where
    g1: "lookupGroupUnlocked ?s1 g = Some gd1"
    and a1: "qmap_at (forwardParametersInputsDescriptor gd1) f = qmap_at (forwardParametersInputsDescriptor gd) f @ [c]"
    and p1: "\<forall>x. x \<noteq> f \<longrightarrow> ports ?s1 x = ports s x"
    and t1: "tagBitMask (ports ?s1 f) = tagBitMask (ports ?s1 c)"
    by blast
  from Cons.IH[OF g1] obtain gd' where
    g2: "lookupGroupUnlocked (fold (registerForwardParameter g f) cs ?s1) g = Some gd'"
    and a2: "qmap_at (forwardParametersInputsDescriptor gd') f = qmap_at (forwardParametersInputsDescriptor gd1) f @ cs"
    and p2: "\<forall>x. x \<noteq> f \<longrightarrow> ports (fold (registerForwardParameter g f) cs ?s1) x = ports ?s1 x"
    and t2: "cs \<noteq> [] \<longrightarrow> tagBitMask (ports (fold (registerForwardParameter g f) cs ?s1) f)
                = tagBitMask (ports (fold (registerForwardParameter g f) cs ?s1) (last cs))"
    by blast
  show ?case
  proof (intro exI[of _ gd'] conjI)
    show "lookupGroupUnlocked (fold (registerForwardParameter g f) (c # cs) s) g = Some gd'"
      using g2 by simp
    show "qmap_at (forwardParametersInputsDescriptor gd') f = qmap_at (forwardParametersInputsDescriptor gd) f @ c # cs"
      using a1 a2 by simp
    show "\<forall>x. x \<noteq> f \<longrightarrow> ports (fold (registerForwardParameter g f) (c # cs) s) x = ports s x"
      using p1 p2 by simp
    show "c # cs \<noteq> [] \<longrightarrow> tagBitMask (ports (fold (registerForwardParameter g f) (c # cs) s) f)
                = tagBitMask (ports (fold (registerForwardParameter g f) (c # cs) s) (last (c # cs)))"
      using t1 t2 by (cases "cs = []") simp_all
  qed
qed

text \<open>
  C7.  On a registered group \<open>g\<close>, the calls \<open>registerForwardInput(g, f, c)\<close> for \<open>c\<close>
  running through \<open>cs\<close> extend the list kept under \<open>f\<close> in \<open>forwardInputsDescriptor\<close> by
  \<open>cs\<close>, in that order; when \<open>cs\<close> is not empty the tag bitmask of \<open>f\<close> is afterwards the
  bitmask of the last port of \<open>cs\<close>, which (unless that port is \<open>f\<close> itself) is the
  bitmask that port had before the calls.  The same holds for \<open>registerForwardOutput\<close>
  and \<open>registerForwardParameter\<close> with their tables.
\<close>

theorem registerForward_appends_and_copies_last_tags:
  assumes "lookupGroupUnlocked s g = Some gd"
  shows "(\<exists>gd'. lookupGroupUnlocked (fold (registerForwardInput g f) cs s) g = Some gd'
           \<and> qmap_at (forwardInputsDescriptor gd') f
               = qmap_at (forwardInputsDescriptor gd) f @ cs)
       \<and> (\<exists>gd'. lookupGroupUnlocked (fold (registerForwardOutput g f) cs s) g = Some gd'
           \<and> qmap_at (forwardOutputsDescriptor gd') f
               = qmap_at (forwardOutputsDescriptor gd) f @ cs)
       \<and> (\<exists>gd'. lookupGroupUnlocked (fold (registerForwardParameter g f) cs s) g = Some gd'
           \<and> qmap_at (forwardParametersInputsDescriptor gd') f
               = qmap_at (forwardParametersInputsDescriptor gd) f @ cs)
       \<and> (cs \<noteq> [] \<longrightarrow>
            (\<forall>s' \<in> {fold (registerForwardInput g f) cs s, fold (registerForwardOutput g f) cs s,
                     fold (registerForwardParameter g f) cs s}.
               tagBitMask (ports s' f) = tagBitMask (ports s' (last cs))
               \<and> (last cs \<noteq> f \<longrightarrow> tagBitMask (ports s' f) = tagBitMask (ports s (last cs)))))"
proof -
  note i = registerForwardInput_fold[OF assms, of f cs]
  note out = registerForwardOutput_fold[OF assms, of f cs]
  note p = registerForwardParameter_fold[OF assms, of f cs]
  have 1: "\<exists>gd'. lookupGroupUnlocked (fold (registerForwardInput g f) cs s) g = Some gd'
           \<and> qmap_at (forwardInputsDescriptor gd') f
               = qmap_at (forwardInputsDescriptor gd) f @ cs"
    using i by blast
  have 2: "\<exists>gd'. lookupGroupUnlocked (fold (registerForwardOutput g f) cs s) g = Some gd'
           \<and> qmap_at (forwardOutputsDescriptor gd') f
               = qmap_at (forwardOutputsDescriptor gd) f @ cs"
    using out by blast
  have 3: "\<exists>gd'. lookupGroupUnlocked (fold (registerForwardParameter g f) cs s) g = Some gd'
           \<and> qmap_at (forwardParametersInputsDescriptor gd') f
               = qmap_at (forwardParametersInputsDescriptor gd) f @ cs"
    using p by blast
  have 4: "tagBitMask (ports s' f) = tagBitMask (ports s' (last cs))
           \<and> (last cs \<noteq> f \<longrightarrow> tagBitMask (ports s' f) = tagBitMask (ports s (last cs)))"
    if "cs \<noteq> []" "s' = fold (registerForwardInput g f) cs s" for s'
    using i that by auto
  have 5: "tagBitMask (ports s' f) = tagBitMask (ports s' (last cs))
           \<and> (last cs \<noteq> f \<longrightarrow> tagBitMask (ports s' f) = tagBitMask (ports s (last cs)))"
    if "cs \<noteq> []" "s' = fold (registerForwardOutput g f) cs s" for s'
    using out that by auto
  have 6: "tagBitMask (ports s' f) = tagBitMask (ports s' (last cs))
           \<and> (last cs \<noteq> f \<longrightarrow> tagBitMask (ports s' f) = tagBitMask (ports s (last cs)))"
    if "cs \<noteq> []" "s' = fold (registerForwardParameter g f) cs s" for s'
    using p that by auto
  from 1 2 3 4 5 6 show ?thesis by blast
qed

theorem registerForward_appends_and_copies_last_tags_witness:
  "(\<exists>gd'. lookupGroupUnlocked (fold (registerForwardInput 5 20) [10, 13] exGroupRegistered) 5
             = Some gd'
          \<and> qmap_at (forwardInputsDescriptor gd') 20 = [10, 13])
   \<and> tagBitMask (ports exGroupRegistered 10) = 1
   \<and> tagBitMask (ports (fold (registerForwardInput 5 20) [10, 13] exGroupRegistered) 20) = 2"
proof -
  let ?gd = "\<lparr>g_uid = 1, group = 5, memberNodes = [],
              forwardInputsDescriptor = [], forwardOutputsDescriptor = [],
              forwardParametersInputsDescriptor = []\<rparr>"
  have lk: "lookupGroupUnlocked exGroupRegistered 5 = Some ?gd"
    by (simp add: exGroupRegistered_def lookupGroupUnlocked_def)
  have t: "tagBitMask (ports exGroupRegistered 13) = 2" "tagBitMask (ports exGroupRegistered 10) = 1"
    by (simp_all add: exGroupRegistered_def exPorts_def)
  have e: "qmap_at (forwardInputsDescriptor ?gd) 20 @ [10, 13] = [10, 13]"
    by (simp add: qmap_at_def)
  note th = registerForward_appends_and_copies_last_tags[OF lk, of 20 "[10, 13]"]
  from th have a: "\<exists>gd'. lookupGroupUnlocked (fold (registerForwardInput 5 20) [10, 13]
                       exGroupRegistered) 5 = Some gd'
          \<and> qmap_at (forwardInputsDescriptor gd') 20
              = qmap_at (forwardInputsDescriptor ?gd) 20 @ [10, 13]"
    by (rule conjunct1)
  have l: "last [10, 13::nat] = 13" "[10, 13::nat] \<noteq> []" "(13::nat) \<noteq> 20" by simp_all
  from th have b: "tagBitMask (ports (fold (registerForwardInput 5 20) [10, 13] exGroupRegistered) 20)
                = tagBitMask (ports exGroupRegistered 13)"
    using l(2,3) unfolding l(1) by blast
  from a b t show ?thesis unfolding e by simp
qed

section \<open>Activation\<close>

lemma same_graph_refl: "same_graph s s"
  by (simp add: same_graph_def)

lemma same_graph_trans: "same_graph s s1 \<Longrightarrow> same_graph s1 s2 \<Longrightarrow> same_graph s s2"
  by (simp add: same_graph_def)

lemma same_graph_findNode: "same_graph s s' \<Longrightarrow> findNode s' name = findNode s name"
  by (simp add: same_graph_def findNode_def)

lemma same_graph_forwarded:
  "same_graph s s' \<Longrightarrow> getAllForwardedPortsFromAPort s' p = getAllForwardedPortsFromAPort s p"
  by (simp add: same_graph_def getAllForwardedPortsFromAPort_def)

lemma same_graph_ofPorts:
  assumes "\<And>p. getConnections k s' p = getConnections k s p"
  shows "getConnectionsOfPorts k s' ps = getConnectionsOfPorts k s ps"
  by (induction ps) (simp_all add: assms split: option.splits)

lemma same_graph_getConnections:
  assumes "same_graph s s'"
  shows "getConnections k s' p = getConnections k s p"
proof (induction k arbitrary: p)
  case 0
  show ?case by simp
next
  case (Suc k)
  have "getConnectionsOfPorts k s' ps = getConnectionsOfPorts k s ps" for ps
    by (rule same_graph_ofPorts) (rule Suc.IH)
  then show ?case
    using assms same_graph_findNode[OF assms] same_graph_forwarded[OF assms]
    by (simp add: same_graph_def lookupNodeUnlocked_def split: option.splits)
qed

lemma foldl_setIsActive:
  "foldl (setIsActive b) s cs =
     s\<lparr>conns := (\<lambda>c. if c \<in> set cs then (conns s c)\<lparr>c_isActive := b\<rparr> else conns s c)\<rparr>"
proof (induction cs arbitrary: s)
  case Nil
  show ?case by simp
next
  case (Cons c cs)
  show ?case
    unfolding foldl_Cons Cons.IH
    by (auto simp: setIsActive_def fun_eq_iff)
qed

lemma cascadeActive_result:
  assumes "\<forall>out \<in> set outs. getConnections k s out \<noteq> None"
  shows "cascadeActive k b outs s =
     Some (s\<lparr>conns := (\<lambda>c. if \<exists>out \<in> set outs. c \<in> set (the (getConnections k s out))
                            then (conns s c)\<lparr>c_isActive := b\<rparr> else conns s c)\<rparr>)"
  using assms
proof (induction outs arbitrary: s)
  case Nil
  show ?case by simp
next
  case (Cons out outs)
  from Cons.prems obtain cs where cs: "getConnections k s out = Some cs" by auto
  let ?s1 = "foldl (setIsActive b) s cs"
  have sg: "same_graph s ?s1"
    by (simp add: foldl_setIsActive same_graph_def)
  have gc: "getConnections k ?s1 p = getConnections k s p" for p
    by (rule same_graph_getConnections[OF sg])
  have pre: "\<forall>out \<in> set outs. getConnections k ?s1 out \<noteq> None"
    using Cons.prems by (simp add: gc)
  show ?case
    unfolding cascadeActive.simps cs option.case Cons.IH[OF pre] gc
    by (auto simp: foldl_setIsActive fun_eq_iff cs)
qed


text \<open>
  The effect of \<open>activateNode\<close> (with \<open>b\<close> true) and \<open>deactivateNode\<close> (with \<open>b\<close> false), in
  terms of what \<open>getConnections\<close> lists: the active flag of \<open>n\<close> becomes \<open>b\<close>, every
  connection that \<open>getConnections\<close> lists for an output port of \<open>n\<close> has its flag set to
  \<open>b\<close> and is otherwise as before, and nothing else changes.
\<close>

lemma activateNode_effect:
  assumes "\<forall>out \<in> set (m_outputs (items s n)). getConnections k s out \<noteq> None"
  shows "\<exists>s'. (if b then activateNode k n s else deactivateNode k n s) = Some s'
     \<and> items s' n = (items s n)\<lparr>m_isActive := b\<rparr>
     \<and> (\<forall>m. m \<noteq> n \<longrightarrow> items s' m = items s m)
     \<and> (\<forall>c. conns s' c =
           (if \<exists>out \<in> set (m_outputs (items s n)). \<exists>cs. getConnections k s out = Some cs \<and> c \<in> set cs
            then (conns s c)\<lparr>c_isActive := b\<rparr> else conns s c))
     \<and> m_nodes s' = m_nodes s \<and> m_groups s' = m_groups s
     \<and> m_nextNodeId s' = m_nextNodeId s \<and> m_nextGroupId s' = m_nextGroupId s
     \<and> ports s' = ports s"
proof -
  let ?s0 = "setActive n b s"
  have sg: "same_graph s ?s0" by (simp add: same_graph_def setActive_def)
  have gc: "getConnections k ?s0 p = getConnections k s p" for p
    by (rule same_graph_getConnections[OF sg])
  have outs: "m_outputs (items ?s0 n) = m_outputs (items s n)" by (simp add: setActive_def)
  have pre: "\<forall>out \<in> set (m_outputs (items s n)). getConnections k ?s0 out \<noteq> None"
    using assms by (simp add: gc)
  have run: "(if b then activateNode k n s else deactivateNode k n s)
             = cascadeActive k b (m_outputs (items s n)) ?s0"
    by (simp add: activateNode_def deactivateNode_def)
  have mem: "(\<exists>out \<in> set (m_outputs (items s n)). c \<in> set (the (getConnections k s out)))
             = (\<exists>out \<in> set (m_outputs (items s n)). \<exists>cs. getConnections k s out = Some cs \<and> c \<in> set cs)"
    for c
    using assms by force
  show ?thesis
    unfolding run cascadeActive_result[OF pre] gc
    by (auto simp: setActive_def mem)
qed

text \<open>
  C9.  \<open>activateNode\<close> does not reach every connection registered on the output ports of
  the node: it reaches those that \<open>getConnections\<close> lists, and \<open>getConnections\<close> looks for
  the descriptor of a port under the module name of the port, not under the node that the
  port was registered for.  In \<open>exConnected\<close> the connection 100 is registered on \<open>B.out\<close>,
  the one output of \<open>B\<close>, and \<open>activateNode\<close> on \<open>B\<close> activates it.  After \<open>setNodeName\<close> on
  \<open>B\<close> the connection is still registered on \<open>B.out\<close>, and \<open>activateNode\<close> on \<open>B\<close> sets the flag
  of \<open>B\<close> and leaves the connection inactive.  The same happens to the node \<open>S\<close> at address 6
  and its connected output, once a second node named \<open>S\<close> exists at address 4.
\<close>

theorem activateNode_misses_connection_when_names_differ:
  "m_outputs (items exConnected 2) = [11]
   \<and> storedConnections exConnected 11 = [100]
   \<and> (case activateNode 3 2 exConnected of
         Some s' \<Rightarrow> m_isActive (items s' 2) \<and> c_isActive (conns s' 100) | None \<Rightarrow> False)
   \<and> m_outputs (items exRenamedB 2) = [11]
   \<and> storedConnections exRenamedB 11 = [100]
   \<and> \<not> c_isActive (conns exRenamedB 100)
   \<and> (case activateNode 3 2 exRenamedB of
         Some s' \<Rightarrow> m_isActive (items s' 2) \<and> \<not> c_isActive (conns s' 100) | None \<Rightarrow> False)
   \<and> m_outputs (items exDuplicateSource 6) = [13]
   \<and> storedConnections exDuplicateSource 13 = [100]
   \<and> (case activateNode 3 6 exSourceConnected of
         Some s' \<Rightarrow> m_isActive (items s' 6) \<and> c_isActive (conns s' 100) | None \<Rightarrow> False)
   \<and> (case activateNode 3 6 exDuplicateSource of
         Some s' \<Rightarrow> m_isActive (items s' 6) \<and> \<not> c_isActive (conns s' 100) | None \<Rightarrow> False)"
  by code_simp

section \<open>Connections of forward ports\<close>

lemma connectedBelow_iff:
  "connectedBelow s p =
     (\<exists>c \<in> set (getAllForwardedPortsFromAPort s p). ownConnections s c \<noteq> [] \<or> connectedBelow s c)"
proof
  assume "connectedBelow s p"
  then obtain q where q: "forwardsTo s p q" "ownConnections s q \<noteq> []"
    by (auto simp: connectedBelow_def)
  from q(1) show "\<exists>c \<in> set (getAllForwardedPortsFromAPort s p).
                    ownConnections s c \<noteq> [] \<or> connectedBelow s c"
    using q(2) by (cases rule: forwardsTo.cases) (auto simp: connectedBelow_def)
next
  assume "\<exists>c \<in> set (getAllForwardedPortsFromAPort s p).
            ownConnections s c \<noteq> [] \<or> connectedBelow s c"
  then show "connectedBelow s p"
    by (auto simp: connectedBelow_def intro: fwd_step fwd_trans)
qed

lemma getConnectionsOfPorts_all:
  assumes "\<forall>c \<in> set ps. \<exists>cs. getConnections k s c = Some cs \<and> (cs \<noteq> [] \<longrightarrow> Q c)"
  shows "\<exists>r. getConnectionsOfPorts k s ps = Some r \<and> (r \<noteq> [] \<longrightarrow> (\<exists>c \<in> set ps. Q c))"
  using assms
proof (induction ps)
  case Nil
  show ?case by simp
next
  case (Cons a ps)
  from Cons.prems obtain cs where cs: "getConnections k s a = Some cs" "cs \<noteq> [] \<longrightarrow> Q a"
    by auto
  from Cons.IH Cons.prems obtain r where r: "getConnectionsOfPorts k s ps = Some r"
      "r \<noteq> [] \<longrightarrow> (\<exists>c \<in> set ps. Q c)"
    by auto
  show ?case using cs r by auto
qed

lemma hasConnectionAny_all:
  assumes "\<forall>c \<in> set ps. hasConnection k s c = Some (Q c)"
  shows "hasConnectionAny k s ps = Some (\<exists>c \<in> set ps. Q c)"
  using assms by (induction ps) (auto split: bool.splits)

lemma getConnections_bounded:
  assumes "forwardDepthLe d s p" "d + 1 \<le> k"
  shows "\<exists>cs. getConnections k s p = Some cs
          \<and> (cs \<noteq> [] \<longrightarrow> ownConnections s p \<noteq> [] \<or> connectedBelow s p)
          \<and> (ownConnections s p \<noteq> [] \<longrightarrow> cs \<noteq> [])"
  using assms
proof (induction d arbitrary: p k)
  case 0
  then obtain k' where k: "k = Suc k'" by (cases k) auto
  from 0 have nof: "getAllForwardedPortsFromAPort s p = []" by simp
  show ?case
    by (auto simp: k nof ownConnections_def split: option.splits)
next
  case (Suc d)
  then obtain k' where k: "k = Suc k'" and k': "d + 1 \<le> k'" by (cases k) auto
  have ch: "\<forall>c \<in> set (getAllForwardedPortsFromAPort s p).
              \<exists>cs. getConnections k' s c = Some cs
                 \<and> (cs \<noteq> [] \<longrightarrow> ownConnections s c \<noteq> [] \<or> connectedBelow s c)"
    using Suc.IH[OF _ k'] Suc.prems(1) by fastforce
  from getConnectionsOfPorts_all[OF ch] obtain r where
    r: "getConnectionsOfPorts k' s (getAllForwardedPortsFromAPort s p) = Some r"
       "r \<noteq> [] \<longrightarrow> (\<exists>c \<in> set (getAllForwardedPortsFromAPort s p).
                        ownConnections s c \<noteq> [] \<or> connectedBelow s c)"
    by blast
  from r(2) have r2: "r \<noteq> [] \<longrightarrow> connectedBelow s p"
    by (subst connectedBelow_iff) simp
  show ?case
    using r(1) r2 by (auto simp: k ownConnections_def split: option.splits)
qed

lemma hasConnection_bounded:
  assumes "forwardDepthLe d s p" "d + 2 \<le> k"
  shows "hasConnection k s p = Some (ownConnections s p \<noteq> [] \<or> connectedBelow s p)"
  using assms
proof (induction d arbitrary: p k)
  case 0
  then obtain k' where k: "k = Suc k'" and k': "0 + 1 \<le> k'" by (cases k) auto
  from 0 have nof: "getAllForwardedPortsFromAPort s p = []" by simp
  have nb: "\<not> connectedBelow s p" by (subst connectedBelow_iff) (simp add: nof)
  from getConnections_bounded[OF "0.prems"(1) k'] obtain cs where
    "getConnections k' s p = Some cs" "(cs \<noteq> []) = (ownConnections s p \<noteq> [])"
    using nb by auto
  then show ?case by (simp add: k nof nb)
next
  case (Suc d)
  then obtain k' where k: "k = Suc k'" and k': "d + 2 \<le> k'" by (cases k) auto
  have ch: "\<forall>c \<in> set (getAllForwardedPortsFromAPort s p).
              hasConnection k' s c = Some (ownConnections s c \<noteq> [] \<or> connectedBelow s c)"
    using Suc.IH[OF _ k'] Suc.prems(1) by simp
  note any = hasConnectionAny_all[OF ch]
  have k'': "Suc d + 1 \<le> k'" using k' by simp
  from getConnections_bounded[OF Suc.prems(1) k''] obtain cs where
    cs: "getConnections k' s p = Some cs"
        "cs \<noteq> [] \<longrightarrow> ownConnections s p \<noteq> [] \<or> connectedBelow s p"
        "ownConnections s p \<noteq> [] \<longrightarrow> cs \<noteq> []"
    by blast
  show ?case
  proof (cases "connectedBelow s p")
    case True
    then have "\<exists>c \<in> set (getAllForwardedPortsFromAPort s p).
                 ownConnections s c \<noteq> [] \<or> connectedBelow s c"
      by (subst (asm) connectedBelow_iff)
    then show ?thesis using True by (simp add: k any)
  next
    case False
    then have "\<not> (\<exists>c \<in> set (getAllForwardedPortsFromAPort s p).
                 ownConnections s c \<noteq> [] \<or> connectedBelow s c)"
      by (subst (asm) connectedBelow_iff)
    then show ?thesis using False cs by (auto simp: k any)
  qed
qed

text \<open>
  What \<open>hasConnection\<close> computes for a port \<open>f\<close> for which the lookup by module name finds
  no connection vector, when no forwarding chain from \<open>f\<close> is longer than \<open>d\<close> and the depth
  bound is at least \<open>d + 2\<close>: it returns, and it returns true exactly when the lookup by
  module name finds a connection for some port reached from \<open>f\<close>.
\<close>

lemma hasConnection_of_forward_port:
  assumes "ownConnections s f = []" "forwardDepthLe d s f" "d + 2 \<le> k"
  shows "hasConnection k s f = Some (\<exists>p. forwardsTo s f p \<and> ownConnections s p \<noteq> [])"
  using hasConnection_bounded[OF assms(2,3)] assms(1) by (simp add: connectedBelow_def)

text \<open>
  C6.  \<open>hasConnection\<close> on a forward port is not true whenever a concrete port behind it
  has a registered connection.  In \<open>exGrouped\<close> the forward port 13 forwards to \<open>A.in\<close>, on
  which the connection 100 is registered, and \<open>hasConnection\<close> is true.  After \<open>setNodeName\<close>
  on the member \<open>A\<close> the forwarding entry and the registered connection are as before, and
  \<open>hasConnection\<close> on the forward port is false, with any depth bound: the recursion
  reaches \<open>A.in\<close>, and \<open>getConnections\<close> looks for its descriptor under the module name \<open>A\<close>,
  which is the name of no node.  Likewise for the forward port 15 of \<open>exSinkGrouped\<close>, which
  forwards to the connected input of \<open>S\<close>, once a second node named \<open>S\<close> exists.
\<close>

theorem forward_port_misses_connection_of_member:
  "getAllForwardedPortsFromAPort exGrouped 13 = [10]
   \<and> storedConnections exGrouped 10 = [100]
   \<and> hasConnection 3 exGrouped 13 = Some True
   \<and> getAllForwardedPortsFromAPort exGroupedRenamed 13 = [10]
   \<and> getAllForwardedPortsFromAPort exGroupedRenamed 10 = []
   \<and> storedConnections exGroupedRenamed 10 = [100]
   \<and> hasConnection 3 exGroupedRenamed 13 = Some False
   \<and> hasConnection 9 exGroupedRenamed 13 = Some False
   \<and> getAllForwardedPortsFromAPort exSinkGrouped 15 = [13]
   \<and> storedConnections exSinkGrouped 13 = [100]
   \<and> hasConnection 3 exSinkGrouped 15 = Some True
   \<and> getAllForwardedPortsFromAPort exSinkGroupedDuplicate 15 = [13]
   \<and> getAllForwardedPortsFromAPort exSinkGroupedDuplicate 13 = []
   \<and> storedConnections exSinkGroupedDuplicate 13 = [100]
   \<and> hasConnection 3 exSinkGroupedDuplicate 15 = Some False
   \<and> hasConnection 9 exSinkGroupedDuplicate 15 = Some False"
  by code_simp

section \<open>Single assignment of sinks\<close>

lemma sink_rejected_both_orders:
  assumes "m_orientation (ports s p) = Input \<or> m_orientation (ports s p) = Parameter"
      and "hasConnection k s p = Some True"
  shows "createConnectionBetweenPorts k p q s = Inr (None, s)
         \<and> createConnectionBetweenPorts k q p s = Inr (None, s)"
proof -
  have "PortsAreCompatible k s p q = Some False"
    using assms by (auto simp: PortsAreCompatible_def Let_def split: option.splits bool.splits)
  moreover have "PortsAreCompatible k s q p = Some False"
    using assms
    by (cases "m_orientation (ports s q)")
       (auto simp: PortsAreCompatible_def Let_def isAnyInputPort_def isOutputPort_def
          split: option.splits bool.splits)
  ultimately show ?thesis by (simp add: createConnectionBetweenPorts_def)
qed

text \<open>
  Let \<open>p\<close> be an input or a parameter port.  When \<open>hasConnection\<close> reports a connection for
  \<open>p\<close>, \<open>createConnectionBetweenPorts\<close> with \<open>p\<close> as either endpoint returns no connection
  and returns the state it was given.  And \<open>hasConnection\<close> does report one whenever the
  lookup by module name finds a connection for \<open>p\<close>, or for a port that \<open>p\<close> forwards to
  (the forwarding chains from \<open>p\<close> being no longer than \<open>d\<close> and the depth bound at least
  \<open>d + 2\<close>).
\<close>

lemma sink_rejected_when_lookup_finds_connection:
  assumes "m_orientation (ports s p) = Input \<or> m_orientation (ports s p) = Parameter"
  shows "(hasConnection k s p = Some True \<longrightarrow>
            createConnectionBetweenPorts k p q s = Inr (None, s)
            \<and> createConnectionBetweenPorts k q p s = Inr (None, s))
       \<and> ((ownConnections s p \<noteq> [] \<or> (\<exists>x. forwardsTo s p x \<and> ownConnections s x \<noteq> []))
           \<and> forwardDepthLe d s p \<and> d + 2 \<le> k \<longrightarrow>
            hasConnection k s p = Some True)"
  using sink_rejected_both_orders[OF assms] hasConnection_bounded[of d s p k]
  by (auto simp: connectedBelow_def)

text \<open>
  C2.  A sink with a registered connection is not always refused a second one.  In
  \<open>exSinkConnected\<close> the connection 100 is registered on the input \<open>S.in\<close>, and connecting
  \<open>C.out2\<close> to it is refused.  In \<open>exDuplicate\<close>, where a second node named \<open>S\<close> exists at a
  lower address, the connection is still registered on \<open>S.in\<close>, but \<open>hasConnection\<close> looks for
  it in the descriptor of the other node: it is false, and the same call creates the
  connection 101, after which two connections are registered on the input.  In
  \<open>exRenamedA\<close>, where \<open>setNodeName\<close> was called on \<open>A\<close>, the connection 100 is still
  registered on \<open>A.in\<close>, \<open>hasConnection\<close> is false, the ports are found compatible, and
  \<open>createConnectionBetweenPorts\<close> dereferences the null pointer that \<open>findNode\<close> returns for
  the module name \<open>A\<close>, in either order of the arguments.
\<close>

theorem sink_takes_second_connection_when_names_clash:
  "m_orientation (ports exDuplicate 13) = Input
   \<and> portParent (ports exDuplicate 13) = 6
   \<and> map m_nodeName (map (items exDuplicate) [4, 6]) = [''S'', ''S'']
   \<and> storedConnections exSinkConnected 13 = [100]
   \<and> (case createConnectionBetweenPorts 3 12 13 exSinkConnected of
         Inr (r, s') \<Rightarrow> r = None \<and> storedConnections s' 13 = [100]
       | Inl e \<Rightarrow> False)
   \<and> storedConnections exDuplicate 13 = [100]
   \<and> hasConnection 3 exDuplicate 13 = Some False
   \<and> (case createConnectionBetweenPorts 3 12 13 exDuplicate of
         Inr (r, s') \<Rightarrow> r = Some 101 \<and> storedConnections s' 13 = [101, 100]
                        \<and> storedConnections s' 12 = [101]
       | Inl e \<Rightarrow> False)
   \<and> m_orientation (ports exRenamedA 10) = Input
   \<and> storedConnections exRenamedA 10 = [100]
   \<and> hasConnection 3 exRenamedA 10 = Some False
   \<and> PortsAreCompatible 3 exRenamedA 12 10 = Some True
   \<and> (case createConnectionBetweenPorts 3 12 10 exRenamedA of
         Inl e \<Rightarrow> e = NullDereference | Inr x \<Rightarrow> False)
   \<and> (case createConnectionBetweenPorts 3 10 12 exRenamedA of
         Inl e \<Rightarrow> e = NullDereference | Inr x \<Rightarrow> False)"
  by code_simp

theorem sink_takes_second_connection_when_names_clash_witness:
  "storedConnections exDuplicate 13 = [100]
   \<and> (\<exists>s'. createConnectionBetweenPorts 3 12 13 exDuplicate = Inr (Some 101, s')
            \<and> storedConnections s' 13 = [101, 100])
   \<and> storedConnections exRenamedA 10 = [100]
   \<and> createConnectionBetweenPorts 3 12 10 exRenamedA = Inl NullDereference
   \<and> createConnectionBetweenPorts 3 10 12 exRenamedA = Inl NullDereference"
  using sink_takes_second_connection_when_names_clash
  by (auto split: sum.splits prod.splits)

section \<open>Grouping and ungrouping\<close>

text \<open>
  C5.  The nodes \<open>A\<close> and \<open>B\<close> of \<open>exConnected\<close>, connected from \<open>B.out\<close> to \<open>A.in\<close>, are
  grouped and the group is ungrouped.  The connection is kept; but the forward ports 13
  and 14 of the group still forward to \<open>A.in\<close> and \<open>B.out\<close> when \<open>ungroup\<close> returns, because
  \<open>ungroup\<close> passes the ports of the members, not the forward ports, to
  \<open>unregisterForwardPort\<close>.  The entries go away only with the group descriptor, when the
  deferred destructor runs.
\<close>

theorem ungroup_keeps_forwarding_entries:
  "m_inputs (items exGrouped 5) = [13] \<and> m_outputs (items exGrouped 5) = [14]
   \<and> getAllForwardedPortsFromAPort exGrouped 13 = [10]
   \<and> getAllForwardedPortsFromAPort exGrouped 14 = [11]
   \<and> hasConnectionTo 3 exConnected 11 10 = Some True
   \<and> hasConnectionTo 3 (ungroup 5 exGrouped) 11 10 = Some True
   \<and> getAllForwardedPortsFromAPort (ungroup 5 exGrouped) 13 = [10]
   \<and> getAllForwardedPortsFromAPort (ungroup 5 exGrouped) 14 = [11]
   \<and> getAllForwardedPortsFromAPort (GroupItem_dtor 5 (ungroup 5 exGrouped)) 13 = []
   \<and> getAllForwardedPortsFromAPort (GroupItem_dtor 5 (ungroup 5 exGrouped)) 14 = []"
  by code_simp

section \<open>Registration of a connection\<close>















section \<open>Reachability of the states the other components produce\<close>

text \<open>
  The factory, \<open>NodeItem\<close> and \<open>GroupItem\<close> change the registry only through the
  operations above and change their own objects in between; the states they produce
  are therefore reachable, and the invariant holds in them.  A \<open>NodeItem\<close> or a
  \<open>GroupItem\<close> is constructed at an address that is not the key of a registered group.
\<close>

lemma reachable_items:
  assumes "reachable s" "\<forall>g \<in> fst ` set (m_groups s). isGroupItem (its g)"
  shows "reachable (s\<lparr>items := its\<rparr>)"
proof -
  have "reachable (s\<lparr>ports := ports s, items := its, conns := conns s,
                     nextConn := nextConn s, nextPort := nextPort s\<rparr>)"
    by (rule r_objects[OF assms])
  then show ?thesis by simp
qed

lemma reachable_other_objects:
  assumes "reachable s"
  shows "reachable (s\<lparr>ports := ps, conns := cs, nextConn := nc, nextPort := np\<rparr>)"
proof -
  have "\<forall>g \<in> fst ` set (m_groups s). isGroupItem (items s g)"
    using inv_groupD[OF reachable_inv[OF assms]] by force
  then have "reachable (s\<lparr>ports := ps, items := items s, conns := cs,
                     nextConn := nc, nextPort := np\<rparr>)"
    by (rule r_objects[OF assms])
  then show ?thesis by simp
qed

lemma reachable_ports: "reachable s \<Longrightarrow> reachable (s\<lparr>ports := ps\<rparr>)"
  using reachable_other_objects[where s = s and ps = ps and cs = "conns s"
          and nc = "nextConn s" and np = "nextPort s"] by simp

lemma reachable_conns: "reachable s \<Longrightarrow> reachable (s\<lparr>conns := cs\<rparr>)"
  using reachable_other_objects[where s = s and ps = "ports s" and cs = cs
          and nc = "nextConn s" and np = "nextPort s"] by simp

lemma reachable_item_field:
  assumes "reachable s" "isGroupItem it = isGroupItem (items s n)"
  shows "reachable (s\<lparr>items := (items s)(n := it)\<rparr>)"
proof (rule reachable_items[OF assms(1)])
  show "\<forall>g \<in> fst ` set (m_groups s). isGroupItem (((items s)(n := it)) g)"
    using inv_groupD[OF reachable_inv[OF assms(1)]] assms(2) by force
qed

lemma reachable_setActive: "reachable s \<Longrightarrow> reachable (setActive n b s)"
  unfolding setActive_def by (rule reachable_item_field) simp_all

lemma reachable_cascadeActive:
  "reachable s \<Longrightarrow> cascadeActive k b outs s = Some s' \<Longrightarrow> reachable s'"
proof (induction outs arbitrary: s)
  case Nil
  then show ?case by simp
next
  case (Cons out outs)
  from Cons.prems(2) obtain cs where cs: "getConnections k s out = Some cs"
    and run: "cascadeActive k b outs (foldl (setIsActive b) s cs) = Some s'"
    by (auto split: option.splits)
  have "reachable (foldl (setIsActive b) s cs)"
    unfolding foldl_setIsActive by (rule reachable_conns[OF Cons.prems(1)])
  from Cons.IH[OF this run] show ?case .
qed

lemma reachable_activateNode:
  "reachable s \<Longrightarrow> activateNode k n s = Some s' \<Longrightarrow> reachable s'"
  unfolding activateNode_def by (rule reachable_cascadeActive[OF reachable_setActive])

lemma reachable_deactivateNode:
  "reachable s \<Longrightarrow> deactivateNode k n s = Some s' \<Longrightarrow> reachable s'"
  unfolding deactivateNode_def by (rule reachable_cascadeActive[OF reachable_setActive])

lemma reachable_createConnectionBetweenPorts:
  assumes "reachable s" "createConnectionBetweenPorts k a b s = Inr (r, s')"
  shows "reachable s'"
proof (cases "s' = s")
  case True
  with assms(1) show ?thesis by simp
next
  case False
  let ?cf = "concretePort s a" and ?ct = "concretePort s b"
  let ?s1 = "s\<lparr>conns := (conns s)(nextConn s :=
                   newConnectionItem (getConnectionPortData (ports s ?cf))
                                     (getConnectionPortData (ports s ?ct))),
                nextConn := Suc (nextConn s)\<rparr>"
  from assms(2) False have "s' = registerConnection ?cf ?ct (nextConn s) ?s1"
    by (auto simp: createConnectionBetweenPorts_def Let_def
          split: option.splits bool.splits if_splits)
  moreover have "reachable ?s1"
    using reachable_other_objects[OF assms(1), where ps = "ports s"
            and nc = "Suc (nextConn s)" and np = "nextPort s"]
    by simp
  ultimately show ?thesis by (simp add: r_registerConnection)
qed

lemma group_keys_are_groups:
  "reachable s \<Longrightarrow> g \<in> fst ` set (m_groups s) \<Longrightarrow> isGroupItem (items s g)"
  using inv_groupD[OF reachable_inv] by force

lemma reachable_item_not_group_key:
  assumes "reachable s" "n \<notin> fst ` set (m_groups s)"
  shows "reachable (s\<lparr>items := (items s)(n := it)\<rparr>)"
proof (rule reachable_items[OF assms(1)])
  show "\<forall>g \<in> fst ` set (m_groups s). isGroupItem (((items s)(n := it)) g)"
    using group_keys_are_groups[OF assms(1)] assms(2) by auto
qed

lemma reachable_item_becomes_group:
  assumes "reachable s" "isGroupItem it"
  shows "reachable (s\<lparr>items := (items s)(n := it)\<rparr>)"
proof (rule reachable_items[OF assms(1)])
  show "\<forall>g \<in> fst ` set (m_groups s). isGroupItem (((items s)(n := it)) g)"
    using group_keys_are_groups[OF assms(1)] assms(2) by auto
qed

lemma reachable_NodeItem_ctor:
  assumes "reachable s" "n \<notin> fst ` set (m_groups s)"
  shows "reachable (NodeItem_ctor n name s)"
  unfolding NodeItem_ctor_def
  by (rule r_registerNode) (rule reachable_item_not_group_key[OF assms])

lemma reachable_addInput: "reachable s \<Longrightarrow> reachable (snd (addInput n name s))"
proof -
  assume r: "reachable s"
  let ?it = "(items s n)\<lparr>m_inputs := m_inputs (items s n) @ [nextPort s]\<rparr>"
  let ?ps = "(ports s)(nextPort s := newPortLabel name n Input s)"
  have "reachable (s\<lparr>items := (items s)(n := ?it)\<rparr>)"
    by (rule reachable_item_field[OF r]) simp
  from reachable_other_objects[OF this, where ps = ?ps and cs = "conns s"
         and nc = "nextConn s" and np = "Suc (nextPort s)"]
  have r1: "reachable (s\<lparr>items := (items s)(n := ?it), ports := ?ps, conns := conns s,
                             nextConn := nextConn s, nextPort := Suc (nextPort s)\<rparr>)"
    by simp
  have eq: "s\<lparr>items := (items s)(n := ?it), ports := ?ps, conns := conns s,
             nextConn := nextConn s, nextPort := Suc (nextPort s)\<rparr>
            = s\<lparr>ports := ?ps, nextPort := Suc (nextPort s), items := (items s)(n := ?it)\<rparr>"
    by (cases s) simp
  from r1 have "reachable (s\<lparr>ports := ?ps, nextPort := Suc (nextPort s),
                            items := (items s)(n := ?it)\<rparr>)"
    unfolding eq .
  then have "reachable (registerInput n (nextPort s)
                (s\<lparr>ports := ?ps, nextPort := Suc (nextPort s), items := (items s)(n := ?it)\<rparr>))"
    by (rule r_registerInput)
  then show ?thesis by (simp add: addInput_def Let_def)
qed

lemma reachable_addOutput: "reachable s \<Longrightarrow> reachable (snd (addOutput n name s))"
proof -
  assume r: "reachable s"
  let ?it = "(items s n)\<lparr>m_outputs := m_outputs (items s n) @ [nextPort s]\<rparr>"
  let ?ps = "(ports s)(nextPort s := newPortLabel name n Output s)"
  have "reachable (s\<lparr>items := (items s)(n := ?it)\<rparr>)"
    by (rule reachable_item_field[OF r]) simp
  from reachable_other_objects[OF this, where ps = ?ps and cs = "conns s"
         and nc = "nextConn s" and np = "Suc (nextPort s)"]
  have r1: "reachable (s\<lparr>items := (items s)(n := ?it), ports := ?ps, conns := conns s,
                             nextConn := nextConn s, nextPort := Suc (nextPort s)\<rparr>)"
    by simp
  have eq: "s\<lparr>items := (items s)(n := ?it), ports := ?ps, conns := conns s,
             nextConn := nextConn s, nextPort := Suc (nextPort s)\<rparr>
            = s\<lparr>ports := ?ps, nextPort := Suc (nextPort s), items := (items s)(n := ?it)\<rparr>"
    by (cases s) simp
  from r1 have "reachable (s\<lparr>ports := ?ps, nextPort := Suc (nextPort s),
                            items := (items s)(n := ?it)\<rparr>)"
    unfolding eq .
  then have "reachable (registerOutput n (nextPort s)
                (s\<lparr>ports := ?ps, nextPort := Suc (nextPort s), items := (items s)(n := ?it)\<rparr>))"
    by (rule r_registerOutput)
  then show ?thesis by (simp add: addOutput_def Let_def)
qed

lemma reachable_changeNodeVisibility:
  "reachable s \<Longrightarrow> reachable (changeNodeVisibility val n s)"
proof -
  assume r: "reachable s"
  have "reachable (s\<lparr>items := (items s)(n := (items s n)\<lparr>nodeVisible := val\<rparr>)\<rparr>)"
    by (rule reachable_item_field[OF r]) simp
  from reachable_ports[OF this] show ?thesis by (simp add: changeNodeVisibility_def)
qed

lemma reachable_mirrorInputs: "reachable s \<Longrightarrow> reachable (mirrorInputs g ps s)"
proof (induction ps arbitrary: s)
  case Nil
  then show ?case by simp
next
  case (Cons p ps)
  obtain gp s1 where a: "addInput g (m_moduleName (ports s p) @ ''_'' @ m_portName (ports s p)) s
                         = (gp, s1)"
    by (cases "addInput g (m_moduleName (ports s p) @ ''_'' @ m_portName (ports s p)) s")
  have "reachable (snd (addInput g (m_moduleName (ports s p) @ ''_'' @ m_portName (ports s p)) s))"
    by (rule reachable_addInput[OF Cons.prems])
  then have "reachable s1" unfolding a by simp
  then have "reachable (registerForwardInput g gp p s1)" by (rule r_registerForwardInput)
  from Cons.IH[OF this] show ?case unfolding mirrorInputs.simps a prod.case .
qed

lemma reachable_mirrorOutputs: "reachable s \<Longrightarrow> reachable (mirrorOutputs g ps s)"
proof (induction ps arbitrary: s)
  case Nil
  then show ?case by simp
next
  case (Cons p ps)
  obtain gp s1 where a: "addOutput g (m_moduleName (ports s p) @ ''_'' @ m_portName (ports s p)) s
                         = (gp, s1)"
    by (cases "addOutput g (m_moduleName (ports s p) @ ''_'' @ m_portName (ports s p)) s")
  have "reachable (snd (addOutput g (m_moduleName (ports s p) @ ''_'' @ m_portName (ports s p)) s))"
    by (rule reachable_addOutput[OF Cons.prems])
  then have "reachable s1" unfolding a by simp
  then have "reachable (registerForwardOutput g gp p s1)" by (rule r_registerForwardOutput)
  from Cons.IH[OF this] show ?case unfolding mirrorOutputs.simps a prod.case .
qed

lemma reachable_mirrorPorts: "reachable s \<Longrightarrow> reachable (mirrorPorts g ns s)"
  by (induction ns arbitrary: s) (simp_all add: reachable_mirrorInputs reachable_mirrorOutputs)

lemma reachable_fold:
  assumes "\<And>x s. reachable s \<Longrightarrow> reachable (f x s)"
  shows "reachable s \<Longrightarrow> reachable (fold f xs s)"
  by (induction xs arbitrary: s) (simp_all add: assms)

lemma reachable_GroupItem_ctor:
  assumes r: "reachable s" and fresh: "g \<notin> fst ` set (m_groups s)"
  shows "reachable (GroupItem_ctor g nodes title s)"
proof -
  let ?s1 = "NodeItem_ctor g ''Group'' s"
  let ?s2 = "?s1\<lparr>items := (items ?s1)(g := (items ?s1 g)\<lparr>isGroupItem := True\<rparr>)\<rparr>"
  let ?s3 = "snd (registerGroup g ?s2)"
  let ?s3' = "?s3\<lparr>items := (items ?s3)(g := (items ?s3 g)\<lparr>m_members := remdups nodes\<rparr>)\<rparr>"
  let ?s4 = "fold (changeNodeVisibility False) (remdups nodes) ?s3'"
  let ?s5 = "?s4\<lparr>items := (items ?s4)(g := (items ?s4 g)\<lparr>m_nodeName := title\<rparr>)\<rparr>"
  have r1: "reachable ?s1" by (rule reachable_NodeItem_ctor[OF r fresh])
  have r2: "reachable ?s2" by (rule reachable_item_becomes_group[OF r1]) simp
  have r3: "reachable ?s3" by (rule r_registerGroup[OF r2]) simp
  have r3': "reachable ?s3'" by (rule reachable_item_field[OF r3]) simp
  have r4: "reachable ?s4"
    by (rule reachable_fold) (simp_all only: reachable_changeNodeVisibility r3')
  have r5: "reachable ?s5" by (rule reachable_item_field[OF r4]) simp
  have "reachable (mirrorPorts g (m_members (items ?s5 g)) ?s5)"
    by (rule reachable_mirrorPorts[OF r5])
  then show ?thesis by (simp add: GroupItem_ctor_def Let_def)
qed

lemma reachable_disconnectAllPorts: "reachable s \<Longrightarrow> reachable (disconnectAllPorts n s)"
  unfolding disconnectAllPorts_def by (rule reachable_item_field) simp_all

lemma reachable_ungroupMember: "reachable s \<Longrightarrow> reachable (ungroupMember g n s)"
  unfolding ungroupMember_def Let_def
  by (rule reachable_fold) (simp_all only: r_unregisterForwardPort reachable_changeNodeVisibility)

lemma reachable_ungroup: "reachable s \<Longrightarrow> reachable (ungroup g s)"
proof -
  assume r: "reachable s"
  let ?s1 = "disconnectAllPorts g s"
  let ?s2 = "fold (ungroupMember g) (m_members (items ?s1 g)) ?s1"
  have "reachable ?s2"
    by (rule reachable_fold) (simp_all only: reachable_ungroupMember reachable_disconnectAllPorts[OF r])
  then have "reachable (?s2\<lparr>items := (items ?s2)(g := (items ?s2 g)\<lparr>m_members := []\<rparr>)\<rparr>)"
    by (rule reachable_item_field) simp
  then show ?thesis by (simp add: ungroup_def Let_def)
qed

lemma reachable_GroupItem_dtor: "reachable s \<Longrightarrow> reachable (GroupItem_dtor g s)"
proof -
  assume r: "reachable s"
  let ?s1 = "unregisterGroup g s"
  let ?s2 = "?s1\<lparr>items := (items ?s1)(g := (items ?s1 g)\<lparr>m_members := [], isGroupItem := False\<rparr>)\<rparr>"
  have r1: "reachable ?s1" by (rule r_unregisterGroup[OF r])
  have "g \<notin> fst ` set (m_groups ?s1)"
    by (auto simp: unregisterGroup_def set_qmap_remove)
  from reachable_item_not_group_key[OF r1 this] have r2: "reachable ?s2" .
  have "reachable (unregisterNode g (disconnectAllPorts g ?s2))"
    by (rule r_unregisterNode[OF reachable_disconnectAllPorts[OF r2]])
  then show ?thesis by (simp add: GroupItem_dtor_def Let_def)
qed

text \<open>
  The example states are reachable: each is built from the empty registry by calls of the
  registry and of the constructors, \<open>setNodeName\<close> and \<open>createConnectionBetweenPorts\<close>.
\<close>

lemma reachable_exNodes: "reachable exNodes"
proof -
  let ?s = "registerOutput 3 12 (registerOutput 2 11 (registerInput 1 10
              (snd (registerNode 3 (snd (registerNode 2 (snd (registerNode 1 exFresh))))))))"
  have "reachable ?s"
    by (intro r_registerOutput r_registerInput r_registerNode reachable_exFresh)
  moreover have "?s = exNodes"
    by (simp add: registerNode_def registerInput_def registerOutput_def lookupNodeUnlocked_def
          exFresh_def exNodes_def exItems_def exPorts_def Let_def isAnyInputPort_def
          isInputPort_def isParameterPort_def
          isOutputPort_def)
  ultimately show ?thesis by simp
qed

lemma reachable_exConnected: "reachable exConnected"
  by (rule reachable_createConnectionBetweenPorts[OF reachable_exNodes exConnected_built])

lemma reachable_setNodeName: "reachable s \<Longrightarrow> reachable (setNodeName n t s)"
  unfolding setNodeName_def by (rule reachable_item_field) simp_all

lemma reachable_connected:
  assumes "reachable s"
  shows "reachable (case createConnectionBetweenPorts k a b s of Inr (c, s') \<Rightarrow> s' | Inl e \<Rightarrow> s)"
proof (cases "createConnectionBetweenPorts k a b s")
  case (Inl e)
  then show ?thesis using assms by simp
next
  case (Inr r)
  obtain c s' where r: "r = (c, s')" by (cases r)
  from reachable_createConnectionBetweenPorts[OF assms Inr[unfolded r]] show ?thesis
    by (simp add: Inr r)
qed

lemma exNodes_no_groups: "m_groups exNodes = []"
  by (simp add: exNodes_def)

lemma reachable_exSink: "reachable exSink"
  unfolding exSink_def Let_def
  by (intro reachable_ports reachable_addInput reachable_NodeItem_ctor reachable_exNodes)
     (simp add: exNodes_no_groups)

lemma reachable_exSource: "reachable exSource"
  unfolding exSource_def Let_def
  by (intro reachable_ports reachable_addOutput reachable_NodeItem_ctor reachable_exNodes)
     (simp add: exNodes_no_groups)

lemma reachable_exSinkConnected: "reachable exSinkConnected"
  unfolding exSinkConnected_def by (rule reachable_connected[OF reachable_exSink])

lemma reachable_exSourceConnected: "reachable exSourceConnected"
  unfolding exSourceConnected_def by (rule reachable_connected[OF reachable_exSource])

lemma reachable_exDuplicate: "reachable exDuplicate"
proof -
  have "4 \<notin> fst ` set (m_groups exSinkConnected)" by code_simp
  then show ?thesis
    unfolding exDuplicate_def by (rule reachable_NodeItem_ctor[OF reachable_exSinkConnected])
qed

lemma reachable_exDuplicateSource: "reachable exDuplicateSource"
proof -
  have "4 \<notin> fst ` set (m_groups exSourceConnected)" by code_simp
  then show ?thesis
    unfolding exDuplicateSource_def
    by (rule reachable_NodeItem_ctor[OF reachable_exSourceConnected])
qed

lemma reachable_exGrouped: "reachable exGrouped"
proof -
  have "5 \<notin> fst ` set (m_groups exConnected)" by code_simp
  then show ?thesis
    unfolding exGrouped_def by (rule reachable_GroupItem_ctor[OF reachable_exConnected])
qed

lemma reachable_exSinkGrouped: "reachable exSinkGrouped"
proof -
  have "7 \<notin> fst ` set (m_groups exSinkConnected)" by code_simp
  then show ?thesis
    unfolding exSinkGrouped_def by (rule reachable_GroupItem_ctor[OF reachable_exSinkConnected])
qed

lemma reachable_exSinkGroupedDuplicate: "reachable exSinkGroupedDuplicate"
proof -
  have "4 \<notin> fst ` set (m_groups exSinkGrouped)" by code_simp
  then show ?thesis
    unfolding exSinkGroupedDuplicate_def
    by (rule reachable_NodeItem_ctor[OF reachable_exSinkGrouped])
qed

lemma reachable_renamed:
  "reachable exRenamedA" "reachable exRenamedB" "reachable exGroupedRenamed"
  unfolding exRenamedA_def exRenamedB_def exGroupedRenamed_def
  by (rule reachable_setNodeName, rule reachable_exConnected,
      rule reachable_setNodeName, rule reachable_exConnected,
      rule reachable_setNodeName, rule reachable_exGrouped)

end
